theory Spec2Isabelle
  imports Main "HOL-Library.Multiset" "HOL-Library.List_Lexorder"
begin

section \<open>Host objects: fields, expressions, exceptions\<close>

text \<open>
  The symbolic layer (Devito, SymPy) is outside the repository. The code only queries it:
  a field's \<open>is_TimeDependent\<close>, \<open>space_order\<close> and \<open>space_dimensions\<close>, an
  expression's fields and derivatives, a derivative's \<open>expr\<close> and \<open>dims\<close>. Expressions are
  therefore a small tree type carrying exactly what those queries read.
\<close>

type_synonym dimension = string

record func =
  f_name :: string
  is_TimeDependent :: bool
  space_order :: int
  space_dimensions :: "dimension list"

datatype expr =
    Num int
  | Symbol string
  | Fn func
  | Add expr expr
  | Mul expr expr
  | Derivative expr "dimension list"

text \<open>A derivative node, as the pair of its \<open>expr\<close> and its \<open>dims\<close>.\<close>

type_synonym derivative = "expr \<times> dimension list"

text \<open>The exception classes the code can raise; messages are not modelled.\<close>

datatype py_error = NotImplementedError | TypeError | IndexError | AttributeError | ValueError

section \<open>skin.py: the stencil footprint\<close>

text \<open>
  A two-dimensional integer array of shape \<open>(D, K)\<close> is represented by \<open>D\<close> and the
  list of its \<open>K\<close> columns, in column order; each column is a point or offset of length
  \<open>D\<close>.
\<close>

record array2 =
  nrows :: nat
  cols :: "int list list"

text \<open>\<open>np.arange(a, b)\<close> on integers: \<open>a, a + 1, ..., b - 1\<close>.\<close>

definition arange :: "int \<Rightarrow> int \<Rightarrow> int list" where
  "arange a b = [a..b - 1]"

text \<open>
  One iteration of the loop over \<open>dims\<close>. Python parses \<open>-s_o//2\<close> as \<open>(-s_o)//2\<close>, and
  \<open>//\<close> rounds towards minus infinity, as \<open>div\<close> on \<open>int\<close> does.
\<close>

definition span :: "func \<Rightarrow> dimension list \<Rightarrow> dimension \<Rightarrow> int list" where
  "span f ddims dim =
     (if dim \<in> set ddims
      then arange ((- space_order f) div 2) (space_order f div 2 + 1)
      else [0])"

text \<open>
  \<open>np.meshgrid(*spans, indexing='xy')\<close>, each mesh flattened in C order, and the flattened
  meshes stacked as rows: the columns of the result. With \<open>'xy'\<close> indexing the meshes have
  shape \<open>(n1, n0, n2, ...)\<close>, so the second span varies slowest, then the first, then the
  others in order.
\<close>

fun meshgrid_xy :: "int list list \<Rightarrow> int list list" where
  "meshgrid_xy [] = []"
| "meshgrid_xy [s0] = map (\<lambda>a0. [a0]) s0"
| "meshgrid_xy (s0 # s1 # rest) =
     concat (map (\<lambda>a1. concat (map (\<lambda>a0. map (\<lambda>r. a0 # a1 # r) (product_lists rest)) s0)) s1)"

text \<open>
  \<open>stencil_footprint(deriv)\<close>. \<open>deriv.expr.space_dimensions\<close> exists only when
  \<open>deriv.expr\<close> is a field; \<open>np.vstack\<close> of an empty list raises \<open>ValueError\<close>.
\<close>

definition stencil_footprint :: "derivative \<Rightarrow> py_error + array2" where
  "stencil_footprint deriv =
     (case fst deriv of
        Fn f \<Rightarrow>
          (let spans = map (span f (snd deriv)) (space_dimensions f)
           in if spans = [] then Inl ValueError
              else Inr \<lparr>nrows = length spans, cols = meshgrid_xy spans\<rparr>)
      | _ \<Rightarrow> Inl AttributeError)"

section \<open>skin.py: the modified skin\<close>

text \<open>
  Modelled from the spec: the class \<open>BoundaryGeometry\<close>, which \<open>skin.py\<close> receives as
  an argument and does not define. The skin reads three of its attributes: \<open>grid.shape\<close> (the extent per axis),
  \<open>boundary_points\<close> (one index array per axis, the coordinates of the boundary points) and
  \<open>interior_mask\<close>. The spec gives every output of the geometry the shape of the grid, so
  the mask is a function of an index vector and its shape is \<open>grid_shape\<close>.
\<close>

record geometry =
  grid_shape :: "int list"
  boundary_points :: "int list list"
  interior_mask :: "int list \<Rightarrow> bool"

text \<open>
  \<open>np.array(boundary_points)\<close>: rows of unequal length raise \<open>ValueError\<close>. An empty
  tuple gives a one-dimensional array (\<open>None\<close> here), which the indexing
  \<open>bp[:, :, np.newaxis]\<close> rejects later with \<open>IndexError\<close>.
\<close>

definition np_array :: "int list list \<Rightarrow> py_error + array2 option" where
  "np_array rows =
     (case rows of
        [] \<Rightarrow> Inr None
      | r # rs \<Rightarrow>
          if \<exists>r' \<in> set rs. length r' \<noteq> length r then Inl ValueError
          else Inr (Some \<lparr>nrows = length rows,
                          cols = map (\<lambda>j. map (\<lambda>row. row ! j) rows) [0..<length r]\<rparr>))"

text \<open>
  \<open>bp[:, :, np.newaxis] + fp[:, np.newaxis, :]\<close> reshaped to \<open>(bp.shape[0], -1)\<close>. The
  leading axes broadcast when they agree or one of them is 1; column \<open>n * K + k\<close> of the
  result is boundary point \<open>n\<close> plus offset \<open>k\<close>.
\<close>

definition broadcast_sum :: "array2 \<Rightarrow> array2 \<Rightarrow> py_error + array2" where
  "broadcast_sum bp fp =
     (if nrows bp = nrows fp
      then Inr \<lparr>nrows = nrows bp,
                cols = concat (map (\<lambda>b. map (\<lambda>off. map2 (+) b off) (cols fp)) (cols bp))\<rparr>
      else if nrows fp = 1
      then Inr \<lparr>nrows = nrows bp,
                cols = concat (map (\<lambda>b. map (\<lambda>off. map (\<lambda>x. x + hd off) b) (cols fp)) (cols bp))\<rparr>
      else if nrows bp = 1
      then Inr \<lparr>nrows = 1,
                cols = concat (map (\<lambda>d. concat (map (\<lambda>b. map (\<lambda>off. [hd b + off ! d]) (cols fp))
                                                    (cols bp))) [0..<nrows fp])\<rparr>
      else Inl ValueError)"

text \<open>\<open>np.unique(mp, axis=1)\<close>: the distinct columns, in lexicographic order.\<close>

definition np_unique :: "array2 \<Rightarrow> array2" where
  "np_unique mp = mp\<lparr>cols := sort (remdups (cols mp))\<rparr>"

text \<open>
  The loop \<open>for dim in range(mp.shape[0])\<close>; \<open>grid.shape[dim]\<close> raises \<open>IndexError\<close>
  when the grid has fewer axes.
\<close>

fun trim :: "int list \<Rightarrow> nat list \<Rightarrow> int list list \<Rightarrow> py_error + int list list" where
  "trim shape [] mp = Inr mp"
| "trim shape (dim # dims) mp =
     (if dim < length shape
      then trim shape dims (filter (\<lambda>p. 0 \<le> p ! dim \<and> p ! dim < shape ! dim) mp)
      else Inl IndexError)"

text \<open>
  \<open>interior_mask[all_points]\<close> and \<open>mp[:, interior_mask]\<close>: with as many index arrays as the
  mask has axes this selects the columns whose point is interior; with fewer or more the
  indexing fails.
\<close>

definition select_interior :: "geometry \<Rightarrow> array2 \<Rightarrow> py_error + array2" where
  "select_interior g mp =
     (if nrows mp = length (grid_shape g)
      then Inr (mp\<lparr>cols := filter (interior_mask g) (cols mp)\<rparr>)
      else Inl IndexError)"

definition get_points :: "derivative \<Rightarrow> geometry \<Rightarrow> py_error + array2" where
  "get_points deriv g =
     (case np_array (boundary_points g) of
        Inl e \<Rightarrow> Inl e
      | Inr bp_opt \<Rightarrow>
     (case stencil_footprint deriv of
        Inl e \<Rightarrow> Inl e
      | Inr fp \<Rightarrow>
     (case bp_opt of
        None \<Rightarrow> Inl IndexError
      | Some bp \<Rightarrow>
     (case broadcast_sum bp fp of
        Inl e \<Rightarrow> Inl e
      | Inr mp0 \<Rightarrow>
     (let mp1 = np_unique mp0 in
      case trim (grid_shape g) [0..<nrows mp1] (cols mp1) of
        Inl e \<Rightarrow> Inl e
      | Inr cs \<Rightarrow> select_interior g (mp1\<lparr>cols := cs\<rparr>))))))"

record modified_skin =
  ms_deriv :: derivative
  ms_geometry :: geometry
  ms_mod_points :: array2

definition ModifiedSkin_init :: "derivative \<Rightarrow> geometry \<Rightarrow> py_error + modified_skin" where
  "ModifiedSkin_init deriv g =
     (case get_points deriv g of
        Inl e \<Rightarrow> Inl e
      | Inr mp \<Rightarrow> Inr \<lparr>ms_deriv = deriv, ms_geometry = g, ms_mod_points = mp\<rparr>)"

text \<open>The property \<open>modified_points\<close>: the tuple of the rows of the array.\<close>

definition modified_points :: "modified_skin \<Rightarrow> int list list" where
  "modified_points s =
     map (\<lambda>i. map (\<lambda>p. p ! i) (cols (ms_mod_points s))) [0..<nrows (ms_mod_points s)]"

section \<open>boundary_conditions.py: a single boundary condition\<close>

record equation =
  lhs :: expr
  rhs :: expr

text \<open>
  \<open>retrieve_functions(lhs)\<close>: every field occurrence of the expression, term by term, with
  repetitions. \<open>lhs.find(dv.Derivative)\<close>: every derivative node of the expression, nested
  ones included.
\<close>

fun retrieve_functions :: "expr \<Rightarrow> func list" where
  "retrieve_functions (Num n) = []"
| "retrieve_functions (Symbol s) = []"
| "retrieve_functions (Fn f) = [f]"
| "retrieve_functions (Add a b) = retrieve_functions a @ retrieve_functions b"
| "retrieve_functions (Mul a b) = retrieve_functions a @ retrieve_functions b"
| "retrieve_functions (Derivative e ds) = retrieve_functions e"

fun find_derivatives :: "expr \<Rightarrow> derivative list" where
  "find_derivatives (Num n) = []"
| "find_derivatives (Symbol s) = []"
| "find_derivatives (Fn f) = []"
| "find_derivatives (Add a b) = find_derivatives a @ find_derivatives b"
| "find_derivatives (Mul a b) = find_derivatives a @ find_derivatives b"
| "find_derivatives (Derivative e ds) = (e, ds) # find_derivatives e"

text \<open>
  A Python \<open>set\<close> turned into a tuple, or iterated: the distinct elements in an order the
  language does not fix. The model takes the order of \<open>remdups\<close>; no result below depends
  on it.
\<close>

definition tuple_of_set :: "'a list \<Rightarrow> 'a list" where
  "tuple_of_set xs = remdups xs"

record boundary_condition =
  bc_eq :: equation
  bc_funcs :: "func list"
  bc_dims :: "dimension list option"

definition parse_rhs :: "equation \<Rightarrow> py_error + unit" where
  "parse_rhs eq = (if rhs eq \<noteq> Num 0 then Inl NotImplementedError else Inr ())"

definition get_functions :: "equation \<Rightarrow> func list option \<Rightarrow> func list" where
  "get_functions eq funcs =
     (case funcs of
        None \<Rightarrow> tuple_of_set (filter is_TimeDependent (retrieve_functions (lhs eq)))
      | Some fs \<Rightarrow> filter (\<lambda>f. f \<in> set fs) (tuple_of_set (retrieve_functions (lhs eq))))"

text \<open>The loop over the derivatives; \<open>dims\<close> is the set built so far.\<close>

fun collect_dims :: "func list \<Rightarrow> derivative list \<Rightarrow> dimension list \<Rightarrow> py_error + dimension list"
where
  "collect_dims funcs [] dims = Inr dims"
| "collect_dims funcs (deriv # derivs) dims =
     (case fst deriv of
        Fn f \<Rightarrow>
          if f \<in> set funcs then collect_dims funcs derivs (tuple_of_set (dims @ snd deriv))
          else Inl NotImplementedError
      | _ \<Rightarrow> Inl NotImplementedError)"

definition get_derivative_dimensions ::
  "equation \<Rightarrow> func list \<Rightarrow> py_error + dimension list option" where
  "get_derivative_dimensions eq funcs =
     (case collect_dims funcs (tuple_of_set (find_derivatives (lhs eq))) [] of
        Inl e \<Rightarrow> Inl e
      | Inr dims \<Rightarrow> Inr (if length dims = 0 then None else Some dims))"

definition BoundaryCondition_init ::
  "equation \<Rightarrow> func list option \<Rightarrow> py_error + boundary_condition" where
  "BoundaryCondition_init eq funcs =
     (case parse_rhs eq of
        Inl e \<Rightarrow> Inl e
      | Inr u \<Rightarrow>
     (let fs = get_functions eq funcs in
      case get_derivative_dimensions eq fs of
        Inl e \<Rightarrow> Inl e
      | Inr ds \<Rightarrow> Inr \<lparr>bc_eq = eq, bc_funcs = fs, bc_dims = ds\<rparr>))"

section \<open>boundary_conditions.py: groups of boundary conditions\<close>

record condition_group =
  cg_conds :: "boundary_condition list"
  cg_funcs :: "func list"

text \<open>
  A user-supplied function is a scalar field, or a vector or tensor of fields whose
  \<open>flat()\<close> lists the components; a scalar field has no \<open>flat\<close> and is added itself.
\<close>

datatype dv_function = ScalarFunction func | TensorFunction "func list"

fun flat :: "dv_function \<Rightarrow> func list" where
  "flat (ScalarFunction f) = [f]"
| "flat (TensorFunction fs) = fs"

definition flatten_functions :: "dv_function list option \<Rightarrow> func list option" where
  "flatten_functions funcs =
     (case funcs of
        None \<Rightarrow> None
      | Some fs \<Rightarrow> Some (tuple_of_set (concat (map flat fs))))"

text \<open>
  A user-supplied equation is a scalar equality, whose \<open>_flatten\<close> is itself, or an equality
  of vectors or tensors, whose \<open>_flatten\<close> pairs the components and raises \<open>KeyError\<close> when
  the two sides differ in size. \<open>_flatten\<close> belongs to the symbolic layer; the code turns its
  \<open>KeyError\<close> into a \<open>TypeError\<close>.
\<close>

datatype dv_Eq = ScalarEq equation | TensorEq "expr list" "expr list"

fun flatten_Eq :: "dv_Eq \<Rightarrow> equation list option" where
  "flatten_Eq (ScalarEq eq) = Some [eq]"
| "flatten_Eq (TensorEq ls rs) =
     (if length ls = length rs then Some (map (\<lambda>(l, r). \<lparr>lhs = l, rhs = r\<rparr>) (zip ls rs))
      else None)"

fun flatten_loop :: "dv_Eq list \<Rightarrow> equation list \<Rightarrow> py_error + equation list" where
  "flatten_loop [] eq_list = Inr eq_list"
| "flatten_loop (eq # eqs) eq_list =
     (case flatten_Eq eq of
        None \<Rightarrow> Inl TypeError
      | Some es \<Rightarrow> flatten_loop eqs (eq_list @ es))"

definition flatten_equations :: "dv_Eq list \<Rightarrow> py_error + equation list" where
  "flatten_equations eqs =
     (case flatten_loop eqs [] of
        Inl e \<Rightarrow> Inl e
      | Inr eq_list \<Rightarrow> Inr (tuple_of_set eq_list))"

fun setup_bcs :: "equation list \<Rightarrow> func list option \<Rightarrow> py_error + boundary_condition list" where
  "setup_bcs [] funcs = Inr []"
| "setup_bcs (eq # eqs) funcs =
     (case BoundaryCondition_init eq funcs of
        Inl e \<Rightarrow> Inl e
      | Inr bc \<Rightarrow>
          (case setup_bcs eqs funcs of
             Inl e \<Rightarrow> Inl e
           | Inr bcs \<Rightarrow> Inr (bc # bcs)))"

subsection \<open>The graph library\<close>

text \<open>
  \<open>networkx.Graph\<close> is outside the repository. The model keeps the nodes in insertion
  order and the undirected edges as pairs; adding an edge adds its end points.
\<close>

record 'a graph =
  g_nodes :: "'a list"
  g_edges :: "('a \<times> 'a) list"

definition empty_graph :: "'a graph" where
  "empty_graph = \<lparr>g_nodes = [], g_edges = []\<rparr>"

definition add_node :: "'a graph \<Rightarrow> 'a \<Rightarrow> 'a graph" where
  "add_node g v = (if v \<in> set (g_nodes g) then g else g\<lparr>g_nodes := g_nodes g @ [v]\<rparr>)"

definition add_nodes_from :: "'a graph \<Rightarrow> 'a list \<Rightarrow> 'a graph" where
  "add_nodes_from g vs = foldl add_node g vs"

definition add_edge :: "'a graph \<Rightarrow> 'a \<times> 'a \<Rightarrow> 'a graph" where
  "add_edge g e = (let g' = add_node (add_node g (fst e)) (snd e)
                   in g'\<lparr>g_edges := g_edges g' @ [e]\<rparr>)"

definition add_edges_from :: "'a graph \<Rightarrow> ('a \<times> 'a) list \<Rightarrow> 'a graph" where
  "add_edges_from g es = foldl add_edge g es"

text \<open>The nodes not yet seen that have a neighbour among the seen ones.\<close>

definition frontier :: "'a graph \<Rightarrow> 'a list \<Rightarrow> 'a list" where
  "frontier g seen =
     filter (\<lambda>w. w \<notin> set seen \<and>
                 (\<exists>u \<in> set seen. (u, w) \<in> set (g_edges g) \<or> (w, u) \<in> set (g_edges g)))
            (g_nodes g)"

text \<open>
  Breadth-first search from the nodes already seen, level by level, until a level adds
  nothing. Every round that continues takes at least one node out of the unseen ones.
\<close>

function plain_bfs :: "'a graph \<Rightarrow> 'a list \<Rightarrow> 'a list" where
  "plain_bfs g seen =
     (if frontier g seen = [] then seen else plain_bfs g (seen @ frontier g seen))"
  by pat_completeness auto
termination
proof (relation "measure (\<lambda>(g, seen). length (filter (\<lambda>w. w \<notin> set seen) (g_nodes g)))")
  show "wf (measure (\<lambda>(g, seen). length (filter (\<lambda>w. w \<notin> set seen) (g_nodes g))))"
    by simp
next
  fix g :: "'a graph" and seen :: "'a list"
  assume ne: "frontier g seen \<noteq> []"
  then obtain w where w: "w \<in> set (frontier g seen)"
    by (cases "frontier g seen") auto
  then have w1: "w \<in> set (g_nodes g)" and w2: "w \<notin> set seen"
    by (auto simp: frontier_def)
  have split: "filter (\<lambda>w. w \<notin> set (seen @ frontier g seen)) (g_nodes g)
        = filter (\<lambda>w. w \<notin> set (frontier g seen)) (filter (\<lambda>w. w \<notin> set seen) (g_nodes g))"
    by (auto intro: filter_cong)
  have "w \<in> set (filter (\<lambda>w. w \<notin> set seen) (g_nodes g))"
    using w1 w2 by simp
  then have "length (filter (\<lambda>w. w \<notin> set (frontier g seen)) (filter (\<lambda>w. w \<notin> set seen) (g_nodes g)))
        < length (filter (\<lambda>w. w \<notin> set seen) (g_nodes g))"
    by (rule length_filter_less) (use w in simp)
  then have "length (filter (\<lambda>w. w \<notin> set (seen @ frontier g seen)) (g_nodes g))
        < length (filter (\<lambda>w. w \<notin> set seen) (g_nodes g))"
    by (simp only: split)
  then show "((g, seen @ frontier g seen), (g, seen))
        \<in> measure (\<lambda>(g, seen). length (filter (\<lambda>w. w \<notin> set seen) (g_nodes g)))"
    by simp
qed

declare plain_bfs.simps [simp del]

text \<open>
  \<open>nx.connected_components\<close>: go through the nodes in order; a node not seen yet starts a
  search, whose nodes form the next component.
\<close>

fun components_from :: "'a graph \<Rightarrow> 'a list \<Rightarrow> 'a list \<Rightarrow> 'a list list" where
  "components_from g seen [] = []"
| "components_from g seen (v # vs) =
     (if v \<in> set seen then components_from g seen vs
      else (let c = plain_bfs g [v] in c # components_from g (seen @ c) vs))"

definition connected_components :: "'a graph \<Rightarrow> 'a list list" where
  "connected_components g = components_from g [] (g_nodes g)"

subsection \<open>Grouping\<close>

text \<open>\<open>[(bc.funcs[0], func) for func in bc.funcs[1:]]\<close>: empty for an empty tuple.\<close>

definition star_edges :: "'a list \<Rightarrow> ('a \<times> 'a) list" where
  "star_edges fs = (case fs of [] \<Rightarrow> [] | f0 # rest \<Rightarrow> map (Pair f0) rest)"

definition build_graph :: "boundary_condition list \<Rightarrow> func graph" where
  "build_graph bcs =
     foldl (\<lambda>g bc. add_edges_from (add_nodes_from g (bc_funcs bc)) (star_edges (bc_funcs bc)))
           empty_graph bcs"

text \<open>
  \<open>[bc for bc in self.bcs if bc.funcs[0] in group]\<close>: \<open>bc.funcs[0]\<close> raises \<open>IndexError\<close>
  on an empty tuple.
\<close>

fun select_conditions ::
  "boundary_condition list \<Rightarrow> func list \<Rightarrow> py_error + boundary_condition list" where
  "select_conditions [] grp = Inr []"
| "select_conditions (bc # bcs) grp =
     (case bc_funcs bc of
        [] \<Rightarrow> Inl IndexError
      | f0 # rest \<Rightarrow>
          (case select_conditions bcs grp of
             Inl e \<Rightarrow> Inl e
           | Inr conds \<Rightarrow> Inr (if f0 \<in> set grp then bc # conds else conds)))"

text \<open>The loop over \<open>f_groups\<close>, with the locals \<open>bc_groups\<close> and \<open>f_map\<close> as state.\<close>

fun group_loop ::
  "boundary_condition list \<Rightarrow> func list list \<Rightarrow>
   condition_group list \<times> (func \<rightharpoonup> condition_group) \<Rightarrow>
   py_error + condition_group list \<times> (func \<rightharpoonup> condition_group)" where
  "group_loop bcs [] st = Inr st"
| "group_loop bcs (grp # groups) st =
     (case select_conditions bcs grp of
        Inl e \<Rightarrow> Inl e
      | Inr conds \<Rightarrow>
          (let new_group = \<lparr>cg_conds = conds, cg_funcs = grp\<rparr>
           in group_loop bcs groups
                (fst st @ [new_group], fold (\<lambda>f m. m(f \<mapsto> new_group)) grp (snd st))))"

text \<open>
  \<open>_group_bcs\<close>: what its locals \<open>bc_groups\<close> and \<open>f_map\<close> hold when it ends. The method
  assigns nothing to \<open>self\<close>; it prints \<open>f_map\<close>.
\<close>

definition group_bcs ::
  "boundary_condition list \<Rightarrow> py_error + condition_group list \<times> (func \<rightharpoonup> condition_group)" where
  "group_bcs bcs = group_loop bcs (connected_components (build_graph bcs)) ([], Map.empty)"

text \<open>
  The object after \<open>__init__\<close>: the attributes the constructor assigns. The second
  component of the constructor's result is what it prints, kept as the dictionary.
\<close>

record boundary_conditions =
  bcs_funcs :: "func list option"
  bcs_eqs :: "equation list"
  bcs_bcs :: "boundary_condition list"

definition BoundaryConditions_init ::
  "dv_Eq list \<Rightarrow> dv_function list option \<Rightarrow>
   py_error + boundary_conditions \<times> (func \<rightharpoonup> condition_group)" where
  "BoundaryConditions_init eqs funcs =
     (let fs = flatten_functions funcs in
      case flatten_equations eqs of
        Inl e \<Rightarrow> Inl e
      | Inr es \<Rightarrow>
     (case setup_bcs es fs of
        Inl e \<Rightarrow> Inl e
      | Inr bcs \<Rightarrow>
     (case group_bcs bcs of
        Inl e \<Rightarrow> Inl e
      | Inr (bc_groups, f_map) \<Rightarrow>
          Inr (\<lparr>bcs_funcs = fs, bcs_eqs = es, bcs_bcs = bcs\<rparr>, f_map))))"

text \<open>
  The locals \<open>bc_groups\<close> and \<open>f_map\<close> of \<open>_group_bcs\<close> at the end of the constructor, as
  a function of the constructor's arguments.
\<close>

definition constructed_groups ::
  "dv_Eq list \<Rightarrow> dv_function list option \<Rightarrow>
   py_error + condition_group list \<times> (func \<rightharpoonup> condition_group)" where
  "constructed_groups eqs funcs =
     (case flatten_equations eqs of
        Inl e \<Rightarrow> Inl e
      | Inr es \<Rightarrow>
     (case setup_bcs es (flatten_functions funcs) of
        Inl e \<Rightarrow> Inl e
      | Inr bcs \<Rightarrow> group_bcs bcs))"

text \<open>
  Reading an attribute of the object by name: the three instance attributes and the three
  properties the class defines; any other name raises \<open>AttributeError\<close>.
\<close>

datatype attr_value =
    FuncsValue "func list option"
  | EqsValue "equation list"
  | BcsValue "boundary_condition list"

definition getattr_BoundaryConditions :: "boundary_conditions \<Rightarrow> string \<Rightarrow> py_error + attr_value"
where
  "getattr_BoundaryConditions obj name =
     (if name = ''_funcs'' \<or> name = ''funcs'' then Inr (FuncsValue (bcs_funcs obj))
      else if name = ''_eqs'' \<or> name = ''equations'' then Inr (EqsValue (bcs_eqs obj))
      else if name = ''_bcs'' \<or> name = ''bcs'' then Inr (BcsValue (bcs_bcs obj))
      else Inl AttributeError)"

subsection \<open>What the grouping is meant to compute\<close>

text \<open>
  The field graph of a list of conditions: its nodes are the fields of the conditions, its
  edges join the first field of a condition to each of its other fields, in both
  directions. A connected component is the set of nodes reachable from a node.
\<close>

definition field_nodes :: "boundary_condition list \<Rightarrow> func set" where
  "field_nodes bcs = (\<Union>bc \<in> set bcs. set (bc_funcs bc))"

definition field_edges :: "boundary_condition list \<Rightarrow> (func \<times> func) set" where
  "field_edges bcs =
     {(u, w). \<exists>bc \<in> set bcs. bc_funcs bc \<noteq> [] \<and>
        ((u = hd (bc_funcs bc) \<and> w \<in> set (tl (bc_funcs bc))) \<or>
         (w = hd (bc_funcs bc) \<and> u \<in> set (tl (bc_funcs bc))))}"

definition field_components :: "boundary_condition list \<Rightarrow> func set set" where
  "field_components bcs = {(field_edges bcs)\<^sup>* `` {v} | v. v \<in> field_nodes bcs}"

text \<open>
  Two conditions share a field; conditions are connected through shared fields when a
  chain of conditions of the list, each sharing a field with the next, leads from one to
  the other.
\<close>

definition shares_field :: "boundary_condition list \<Rightarrow> (boundary_condition \<times> boundary_condition) set"
where
  "shares_field bcs =
     {(a, b). a \<in> set bcs \<and> b \<in> set bcs \<and> set (bc_funcs a) \<inter> set (bc_funcs b) \<noteq> {}}"

text \<open>The groups of a result as a set of field sets; \<open>None\<close> when the grouping raised.\<close>

definition group_field_sets ::
  "py_error + condition_group list \<times> (func \<rightharpoonup> condition_group) \<Rightarrow> func set set option" where
  "group_field_sets r =
     (case r of Inl e \<Rightarrow> None | Inr (gs, m) \<Rightarrow> Some (set (map (\<lambda>g. set (cg_funcs g)) gs)))"

subsection \<open>Reachability in a graph\<close>

text \<open>
  The edge relation of a graph, in both directions, and the graphs whose edges join nodes
  of the graph (every graph built by \<open>add_edge\<close> is one).
\<close>

definition graph_rel :: "'a graph \<Rightarrow> ('a \<times> 'a) set" where
  "graph_rel g = {(u, w). (u, w) \<in> set (g_edges g) \<or> (w, u) \<in> set (g_edges g)}"

definition closed_graph :: "'a graph \<Rightarrow> bool" where
  "closed_graph g =
     (\<forall>e \<in> set (g_edges g). fst e \<in> set (g_nodes g) \<and> snd e \<in> set (g_nodes g))"

section \<open>Example inputs\<close>

definition ex_f :: func where
  "ex_f = \<lparr>f_name = ''f'', is_TimeDependent = True, space_order = 2,
           space_dimensions = [''x'', ''y'']\<rparr>"

definition ex_h :: func where
  "ex_h = \<lparr>f_name = ''h'', is_TimeDependent = True, space_order = 3,
           space_dimensions = [''x'', ''y'']\<rparr>"

definition ex_geometry :: geometry where
  "ex_geometry = \<lparr>grid_shape = [4, 4], boundary_points = [[0, 1, 2, 3], [2, 2, 2, 2]],
                   interior_mask = (\<lambda>p. p ! 1 \<le> 2)\<rparr>"

definition ex_empty_geometry :: geometry where
  "ex_empty_geometry = \<lparr>grid_shape = [4, 4], boundary_points = [[], []],
                         interior_mask = (\<lambda>p. p ! 1 \<le> 2)\<rparr>"

definition ex_c :: func where
  "ex_c = \<lparr>f_name = ''c'', is_TimeDependent = False, space_order = 2,
           space_dimensions = [''x'', ''y'']\<rparr>"

definition ex_eq_deriv :: equation where
  "ex_eq_deriv = \<lparr>lhs = Add (Fn ex_f) (Derivative (Fn ex_f) [''x'']), rhs = Num 0\<rparr>"

definition ex_eq_rhs :: equation where
  "ex_eq_rhs = \<lparr>lhs = Fn ex_f, rhs = Num 1\<rparr>"

definition ex_eq_coeff :: equation where
  "ex_eq_coeff = \<lparr>lhs = Mul (Fn ex_f) (Derivative (Fn ex_c) [''x'']), rhs = Num 0\<rparr>"

definition ex_eqs_whitelist :: "dv_Eq list" where
  "ex_eqs_whitelist = [ScalarEq \<lparr>lhs = Fn ex_f, rhs = Num 0\<rparr>, ScalarEq \<lparr>lhs = Fn ex_h, rhs = Num 0\<rparr>]"

definition ex_k :: func where
  "ex_k = \<lparr>f_name = ''k'', is_TimeDependent = True, space_order = 2,
           space_dimensions = [''x'', ''y'']\<rparr>"

definition ex_p :: func where
  "ex_p = \<lparr>f_name = ''p'', is_TimeDependent = True, space_order = 2,
           space_dimensions = [''x'', ''y'']\<rparr>"

definition ex_eq1 :: equation where
  "ex_eq1 = \<lparr>lhs = Add (Fn ex_f) (Fn ex_h), rhs = Num 0\<rparr>"

definition ex_eq2 :: equation where
  "ex_eq2 = \<lparr>lhs = Fn ex_k, rhs = Num 0\<rparr>"

definition ex_eq3 :: equation where
  "ex_eq3 = \<lparr>lhs = Add (Fn ex_p) (Fn ex_h), rhs = Num 0\<rparr>"

definition ex_bcs :: "boundary_condition list" where
  "ex_bcs = [\<lparr>bc_eq = ex_eq1, bc_funcs = [ex_f, ex_h], bc_dims = None\<rparr>,
             \<lparr>bc_eq = ex_eq2, bc_funcs = [ex_k], bc_dims = None\<rparr>,
             \<lparr>bc_eq = ex_eq3, bc_funcs = [ex_p, ex_h], bc_dims = None\<rparr>]"

definition ex_eqs :: "dv_Eq list" where
  "ex_eqs = [ScalarEq ex_eq1, ScalarEq ex_eq2, ScalarEq ex_eq3]"

definition ex_eqs_permuted :: "dv_Eq list" where
  "ex_eqs_permuted = [ScalarEq ex_eq3, ScalarEq ex_eq1, ScalarEq ex_eq2]"

section \<open>Lemmas on integer ranges and meshes\<close>

lemma mset_concat_append:
  "mset (concat (map (\<lambda>b. g b @ h b) ys)) = mset (concat (map g ys)) + mset (concat (map h ys))"
  by (induction ys) simp_all

lemma mset_concat_swap:
  "mset (concat (map (\<lambda>a. concat (map (\<lambda>b. f a b) ys)) xs)) =
   mset (concat (map (\<lambda>b. concat (map (\<lambda>a. f a b) xs)) ys))"
proof (induction xs)
  case Nil
  show ?case by (induction ys) simp_all
next
  case (Cons x xs)
  then show ?case by (simp add: mset_concat_append)
qed

lemma mset_meshgrid_xy: "spans \<noteq> [] \<Longrightarrow> mset (meshgrid_xy spans) = mset (product_lists spans)"
proof (cases spans rule: meshgrid_xy.cases)
  case 1
  assume "spans \<noteq> []"
  with 1 show ?thesis by simp
next
  case (2 s0)
  then show ?thesis by (simp add: comp_def)
next
  case (3 s0 s1 rest)
  have "mset (meshgrid_xy spans) = mset (concat (map (\<lambda>a0. concat (map (\<lambda>a1. map (\<lambda>r. a0 # a1 # r) (product_lists rest)) s1)) s0))"
    unfolding 3 meshgrid_xy.simps by (rule mset_concat_swap)
  also have "\<dots> = mset (product_lists spans)"
    unfolding 3 by (simp add: map_concat comp_def)
  finally show ?thesis .
qed

lemma upto_neg_rev: "map uminus (rev [a..b]) = [- b..- a]"
proof (induction a b rule: upto.induct)
  case (1 i j)
  show ?case
  proof (cases "i \<le> j")
    case True
    have "map uminus (rev [i..j]) = map uminus (rev [i+1..j]) @ [- i]"
      using True upto_rec1[of i j] by simp
    also have "\<dots> = [- j..- (i+1)] @ [- i]" using 1 True by simp
    also have "\<dots> = [- j..- i]" using True upto_rec2[of "- j" "- i"] by simp
    finally show ?thesis .
  next
    case False
    then show ?thesis by simp
  qed
qed


lemma filter_upto_less: "filter (\<lambda>x. x < c) [a..b] = [a..min b (c - 1)]"
proof (induction a b rule: upto.induct)
  case (1 i j)
  show ?case
  proof (cases "i \<le> j")
    case True
    note ij = this
    show ?thesis
    proof (cases "i < c")
      case True
      have "filter (\<lambda>x. x < c) [i..j] = i # filter (\<lambda>x. x < c) [i+1..j]"
        using ij True upto_rec1[of i j] by simp
      also have "\<dots> = i # [i+1..min j (c - 1)]" using 1 ij by simp
      also have "\<dots> = [i..min j (c - 1)]" using ij True upto_rec1[of i "min j (c - 1)"] by simp
      finally show ?thesis .
    next
      case False
      then have "filter (\<lambda>x. x < c) [i..j] = []" by (auto simp: filter_empty_conv)
      then show ?thesis using False by simp
    qed
  next
    case False
    then show ?thesis by simp
  qed
qed

lemma filter_upto_greater: "filter (\<lambda>x. c < x) [a..b] = [max a (c + 1)..b]"
proof (induction a b rule: upto.induct)
  case (1 i j)
  show ?case
  proof (cases "i \<le> j")
    case True
    note ij = this
    show ?thesis
    proof (cases "c < i")
      case True
      then have "filter (\<lambda>x. c < x) [i..j] = [i..j]" by (auto simp: filter_id_conv)
      moreover have "max i (c + 1) = i" using True by simp
      ultimately show ?thesis by simp
    next
      case False
      have "filter (\<lambda>x. c < x) [i..j] = filter (\<lambda>x. c < x) [i+1..j]"
        using ij False upto_rec1[of i j] by simp
      also have "\<dots> = [max (i+1) (c + 1)..j]" using 1 ij by simp
      also have "\<dots> = [max i (c + 1)..j]" using False by (simp add: max_def)
      finally show ?thesis .
    qed
  next
    case False
    then show ?thesis by simp
  qed
qed


lemma span_even:
  assumes "even (space_order f)" "dim \<in> set ddims"
  shows "span f ddims dim = [- (space_order f div 2)..space_order f div 2]"
proof -
  have "(- space_order f) div 2 = - (space_order f div 2)"
    using assms(1) by presburger
  then show ?thesis using assms(2) by (simp add: span_def arange_def)
qed

lemma span_odd:
  assumes "odd (space_order f)" "dim \<in> set ddims"
  shows "span f ddims dim = [- ((space_order f + 1) div 2)..(space_order f - 1) div 2]"
proof -
  have "(- space_order f) div 2 = - ((space_order f + 1) div 2)"
    using assms(1) by presburger
  moreover have "space_order f div 2 + 1 - 1 = (space_order f - 1) div 2"
    using assms(1) by presburger
  ultimately show ?thesis using assms(2) by (simp add: span_def arange_def)
qed

lemma length_sym_upto: "0 \<le> (n::int) \<Longrightarrow> int (length [- n..n]) = 2 * n + 1"
  by simp


lemma upto_m1_1: "[- 1..1] = [- 1, 0, 1::int]"
  by code_simp

lemma upto_m2_1: "[- 2..1] = [- 2, - 1, 0, 1::int]"
  by code_simp

section \<open>The stencil footprint\<close>

text \<open>
  C6. For a field of even space order \<open>p \<ge> 0\<close>, the span of a differentiated axis is
  the \<open>p + 1\<close> consecutive offsets from \<open>-p/2\<close> to \<open>p/2\<close>: it is its own mirror image
  about zero and has \<open>p div 2\<close> offsets on each side of zero. The span of an axis that is
  not differentiated is the single offset zero. The footprint has one row per axis and its
  columns are the outer product of the per-axis spans, each combination once.
\<close>

theorem stencil_footprint_even_order:
  assumes "even (space_order f)" and "0 \<le> space_order f"
  shows "(dim \<in> set ddims \<longrightarrow>
            span f ddims dim = [- (space_order f div 2)..space_order f div 2] \<and>
            int (length (span f ddims dim)) = space_order f + 1 \<and>
            map uminus (rev (span f ddims dim)) = span f ddims dim \<and>
            int (length (filter (\<lambda>x. x < 0) (span f ddims dim))) = space_order f div 2 \<and>
            int (length (filter (\<lambda>x. 0 < x) (span f ddims dim))) = space_order f div 2) \<and>
         (dim \<notin> set ddims \<longrightarrow> span f ddims dim = [0]) \<and>
         (space_dimensions f \<noteq> [] \<longrightarrow>
            (\<exists>fp. stencil_footprint (Fn f, ddims) = Inr fp \<and>
                  nrows fp = length (space_dimensions f) \<and>
                  mset (cols fp) = mset (product_lists (map (span f ddims) (space_dimensions f)))))"
proof -
  define h where "h = space_order f div 2"
  have h0: "0 \<le> h" using assms(2) by (simp add: h_def)
  have p: "space_order f = 2 * h" using assms(1) by (auto simp: h_def)
  have A: "span f ddims dim = [- h..h]" if "dim \<in> set ddims"
    using span_even [OF assms(1) that] by (simp add: h_def)
  have B: "int (length [- h..h]) = 2 * h + 1" using h0 by (rule length_sym_upto)
  have C: "map uminus (rev [- h..h]) = [- h..h]" by (simp add: upto_neg_rev)
  have "min h (0 - 1) = -1" using h0 by simp
  then have D: "filter (\<lambda>x. x < 0) [- h..h] = [- h..- 1]"
    by (simp only: filter_upto_less)
  have "max (- h) (0 + 1) = 1" using h0 by simp
  then have E: "filter (\<lambda>x. 0 < x) [- h..h] = [1..h]"
    by (simp only: filter_upto_greater)
  have D': "int (length [- h..- 1]) = h" using h0 by simp
  have E': "int (length [1..h]) = h" using h0 by simp
  have F: "span f ddims dim = [0]" if "dim \<notin> set ddims"
    using that by (simp add: span_def)
  have G: "\<exists>fp. stencil_footprint (Fn f, ddims) = Inr fp \<and>
                  nrows fp = length (space_dimensions f) \<and>
                  mset (cols fp) = mset (product_lists (map (span f ddims) (space_dimensions f)))"
    if "space_dimensions f \<noteq> []"
    using that by (simp add: stencil_footprint_def Let_def mset_meshgrid_xy)
  show ?thesis
    unfolding h_def [symmetric] using A B C D E D' E' F G p h0 by simp
qed


theorem stencil_footprint_even_order_witness:
  "even (space_order ex_f) \<and> 0 \<le> space_order ex_f \<and>
   span ex_f [''x''] ''x'' = [-1, 0, 1] \<and>
   span ex_f [''x''] ''y'' = [0] \<and>
   stencil_footprint (Fn ex_f, [''x'']) = Inr \<lparr>nrows = 2, cols = [[-1, 0], [0, 0], [1, 0]]\<rparr>"
proof -
  have e: "even (space_order ex_f)" and z: "0 \<le> space_order ex_f"
    by (simp_all add: ex_f_def)
  have "span ex_f [''x''] ''x'' = [- (space_order ex_f div 2)..space_order ex_f div 2]"
    using stencil_footprint_even_order [OF e z, of "''x''" "[''x'']"] by simp
  moreover have "span ex_f [''x''] ''y'' = [0]"
    using stencil_footprint_even_order [OF e z, of "''y''" "[''x'']"] by simp
  moreover have "stencil_footprint (Fn ex_f, [''x'']) = Inr \<lparr>nrows = 2, cols = [[-1, 0], [0, 0], [1, 0]]\<rparr>"
    by (simp add: stencil_footprint_def ex_f_def span_def arange_def Let_def upto_m1_1)
  ultimately show ?thesis using e z by (simp add: ex_f_def upto_m1_1)
qed

lemma nth_product_lists:
  assumes "\<forall>xs \<in> set xss. xs \<noteq> []" and "i < length xss"
  shows "(\<lambda>c. c ! i) ` set (product_lists xss) = set (xss ! i)"
proof
  show "(\<lambda>c. c ! i) ` set (product_lists xss) \<subseteq> set (xss ! i)"
    using assms(2) by (auto simp: product_lists_set dest: list_all2_nthD2)
  show "set (xss ! i) \<subseteq> (\<lambda>c. c ! i) ` set (product_lists xss)"
  proof
    fix x assume x: "x \<in> set (xss ! i)"
    let ?c = "(map hd xss)[i := x]"
    have "list_all2 (\<lambda>x ys. x \<in> set ys) ?c xss"
      unfolding list_all2_conv_all_nth
    proof (intro conjI allI impI)
      show "length ?c = length xss" by simp
      fix j assume j: "j < length ?c"
      show "?c ! j \<in> set (xss ! j)"
      proof (cases "j = i")
        case True
        with x j show ?thesis by simp
      next
        case False
        from j have "xss ! j \<in> set xss" by simp
        with assms(1) have "xss ! j \<noteq> []" by blast
        with False j show ?thesis by simp
      qed
    qed
    then have "?c \<in> set (product_lists xss)" by (simp add: product_lists_set)
    moreover have "?c ! i = x" using assms(2) by simp
    ultimately show "x \<in> (\<lambda>c. c ! i) ` set (product_lists xss)" by force
  qed
qed

lemma stencil_footprint_rows:
  assumes "space_dimensions f \<noteq> []" and "\<forall>d. span f ddims d \<noteq> []"
  shows "\<exists>fp. stencil_footprint (Fn f, ddims) = Inr fp \<and>
           nrows fp = length (space_dimensions f) \<and>
           mset (cols fp) = mset (product_lists (map (span f ddims) (space_dimensions f))) \<and>
           (\<forall>i < length (space_dimensions f).
              (\<lambda>c. c ! i) ` set (cols fp) = set (span f ddims (space_dimensions f ! i)))"
proof -
  let ?spans = "map (span f ddims) (space_dimensions f)"
  let ?fp = "\<lparr>nrows = length ?spans, cols = meshgrid_xy ?spans\<rparr>"
  have ne: "?spans \<noteq> []" using assms(1) by simp
  have r: "stencil_footprint (Fn f, ddims) = Inr ?fp"
    using assms(1) by (simp add: stencil_footprint_def Let_def)
  have m: "mset (cols ?fp) = mset (product_lists ?spans)"
    using mset_meshgrid_xy [OF ne] by simp
  then have s: "set (cols ?fp) = set (product_lists ?spans)"
    by (rule mset_eq_setD)
  have "(\<lambda>c. c ! i) ` set (cols ?fp) = set (span f ddims (space_dimensions f ! i))"
    if "i < length (space_dimensions f)" for i
  proof -
    have "\<forall>xs \<in> set ?spans. xs \<noteq> []" using assms(2) by auto
    moreover have "i < length ?spans" using that by simp
    ultimately have "(\<lambda>c. c ! i) ` set (product_lists ?spans) = set (?spans ! i)"
      by (rule nth_product_lists)
    then show ?thesis unfolding s using that by simp
  qed
  with r m show ?thesis by auto
qed


text \<open>
  C10. For a field of odd space order \<open>p \<ge> 0\<close>, the span of a differentiated axis is
  the \<open>p + 1\<close> consecutive offsets from \<open>-(p + 1)/2\<close> to \<open>(p - 1)/2\<close>: it has
  \<open>p div 2 + 1\<close> offsets below zero and \<open>p div 2\<close> above, and it is not its own mirror
  image about zero. The footprint that \<open>stencil_footprint\<close> returns has one row per axis,
  its columns are the outer product of the per-axis spans, each combination once, and the
  offsets in the row of a differentiated axis are exactly those from \<open>-(p + 1)/2\<close> to
  \<open>(p - 1)/2\<close>; the row of any other axis holds zero only.
\<close>

theorem stencil_footprint_odd_order:
  assumes "odd (space_order f)" and "0 \<le> space_order f" and "dim \<in> set ddims"
  shows "span f ddims dim = [- ((space_order f + 1) div 2)..(space_order f - 1) div 2] \<and>
         int (length (span f ddims dim)) = space_order f + 1 \<and>
         int (length (filter (\<lambda>x. x < 0) (span f ddims dim))) = space_order f div 2 + 1 \<and>
         int (length (filter (\<lambda>x. 0 < x) (span f ddims dim))) = space_order f div 2 \<and>
         map uminus (rev (span f ddims dim)) \<noteq> span f ddims dim \<and>
         (space_dimensions f \<noteq> [] \<longrightarrow>
            (\<exists>fp. stencil_footprint (Fn f, ddims) = Inr fp \<and>
                  nrows fp = length (space_dimensions f) \<and>
                  mset (cols fp) = mset (product_lists (map (span f ddims) (space_dimensions f))) \<and>
                  (\<forall>i < length (space_dimensions f).
                     (space_dimensions f ! i \<in> set ddims \<longrightarrow>
                        (\<lambda>c. c ! i) ` set (cols fp) =
                          {- ((space_order f + 1) div 2)..(space_order f - 1) div 2}) \<and>
                     (space_dimensions f ! i \<notin> set ddims \<longrightarrow>
                        (\<lambda>c. c ! i) ` set (cols fp) = {0}))))"
proof -
  define h where "h = space_order f div 2"
  have p: "space_order f = 2 * h + 1" using assms(1) by (auto simp: h_def elim: oddE)
  have h0: "0 \<le> h" using assms(2) by (simp add: h_def)
  have lo: "(space_order f + 1) div 2 = h + 1" unfolding p by simp
  have hi: "(space_order f - 1) div 2 = h" unfolding p by simp
  have A': "span f ddims d = [- (h + 1)..h]" if "d \<in> set ddims" for d
    using span_odd [OF assms(1) that] by (simp only: lo hi)
  have A: "span f ddims dim = [- (h + 1)..h]" by (rule A' [OF assms(3)])
  have Z: "span f ddims d = [0]" if "d \<notin> set ddims" for d
    using that by (simp add: span_def)
  have B: "int (length [- (h + 1)..h]) = 2 * h + 2" using h0 by simp
  have "min h (0 - 1) = -1" using h0 by simp
  then have D: "filter (\<lambda>x. x < 0) [- (h + 1)..h] = [- (h + 1)..- 1]"
    by (simp only: filter_upto_less)
  have "max (- (h + 1)) (0 + 1) = 1" using h0 by simp
  then have E: "filter (\<lambda>x. 0 < x) [- (h + 1)..h] = [1..h]"
    by (simp only: filter_upto_greater)
  have D': "int (length [- (h + 1)..- 1]) = h + 1" using h0 by simp
  have E': "int (length [1..h]) = h" using h0 by simp
  have N: "map uminus (rev [- (h + 1)..h]) \<noteq> [- (h + 1)..h]"
  proof
    assume "map uminus (rev [- (h + 1)..h]) = [- (h + 1)..h]"
    then have "[- h..- (- (h + 1))] = [- (h + 1)..h]"
      by (simp only: upto_neg_rev)
    then have "set [- h..- (- (h + 1))] = set [- (h + 1)..h]"
      by (rule arg_cong)
    then have "{- h..h + 1} = {- (h + 1)..h}"
      by (simp only: set_upto minus_minus)
    moreover have "h + 1 \<in> {- h..h + 1}" using h0 by simp
    ultimately have "h + 1 \<in> {- (h + 1)..h}" by simp
    then show False by simp
  qed
  have first: "span f ddims dim = [- ((space_order f + 1) div 2)..(space_order f - 1) div 2] \<and>
         int (length (span f ddims dim)) = space_order f + 1 \<and>
         int (length (filter (\<lambda>x. x < 0) (span f ddims dim))) = space_order f div 2 + 1 \<and>
         int (length (filter (\<lambda>x. 0 < x) (span f ddims dim))) = space_order f div 2 \<and>
         map uminus (rev (span f ddims dim)) \<noteq> span f ddims dim"
    unfolding lo hi A D E h_def [symmetric] using B D' E' N p h0 by simp
  have ne: "\<forall>d. span f ddims d \<noteq> []"
  proof
    fix d show "span f ddims d \<noteq> []"
    proof (cases "d \<in> set ddims")
      case True
      have "- (h + 1) \<le> h" using h0 by simp
      then have "[- (h + 1)..h] \<noteq> []" by (simp add: upto_rec1)
      then show ?thesis unfolding A' [OF True] .
    next
      case False
      then show ?thesis by (simp add: Z)
    qed
  qed
  have second: "\<exists>fp. stencil_footprint (Fn f, ddims) = Inr fp \<and>
                  nrows fp = length (space_dimensions f) \<and>
                  mset (cols fp) = mset (product_lists (map (span f ddims) (space_dimensions f))) \<and>
                  (\<forall>i < length (space_dimensions f).
                     (space_dimensions f ! i \<in> set ddims \<longrightarrow>
                        (\<lambda>c. c ! i) ` set (cols fp) =
                          {- ((space_order f + 1) div 2)..(space_order f - 1) div 2}) \<and>
                     (space_dimensions f ! i \<notin> set ddims \<longrightarrow>
                        (\<lambda>c. c ! i) ` set (cols fp) = {0}))"
    if sd: "space_dimensions f \<noteq> []"
  proof -
    from stencil_footprint_rows [OF sd ne] obtain fp where
      fp: "stencil_footprint (Fn f, ddims) = Inr fp"
        "nrows fp = length (space_dimensions f)"
        "mset (cols fp) = mset (product_lists (map (span f ddims) (space_dimensions f)))"
      and rows: "\<forall>i < length (space_dimensions f).
              (\<lambda>c. c ! i) ` set (cols fp) = set (span f ddims (space_dimensions f ! i))"
      by blast
    have "(\<lambda>c. c ! i) ` set (cols fp) = {- (h + 1)..h}"
      if "i < length (space_dimensions f)" "space_dimensions f ! i \<in> set ddims" for i
    proof -
      from rows that(1) have "(\<lambda>c. c ! i) ` set (cols fp) = set (span f ddims (space_dimensions f ! i))"
        by blast
      also have "\<dots> = set [- (h + 1)..h]" by (simp only: A' [OF that(2)])
      finally show ?thesis by simp
    qed
    moreover have "(\<lambda>c. c ! i) ` set (cols fp) = {0}"
      if "i < length (space_dimensions f)" "space_dimensions f ! i \<notin> set ddims" for i
    proof -
      from rows that(1) have "(\<lambda>c. c ! i) ` set (cols fp) = set (span f ddims (space_dimensions f ! i))"
        by blast
      also have "\<dots> = set [0]" by (simp only: Z [OF that(2)])
      finally show ?thesis by simp
    qed
    ultimately show ?thesis unfolding lo hi using fp by blast
  qed
  from first second show ?thesis by blast
qed

theorem stencil_footprint_odd_order_witness:
  "odd (space_order ex_h) \<and> 0 \<le> space_order ex_h \<and>
   span ex_h [''x''] ''x'' = [-2, -1, 0, 1] \<and>
   length (filter (\<lambda>x. x < 0) (span ex_h [''x''] ''x'')) = 2 \<and>
   length (filter (\<lambda>x. 0 < x) (span ex_h [''x''] ''x'')) = 1 \<and>
   stencil_footprint (Fn ex_h, [''x'']) =
     Inr \<lparr>nrows = 2, cols = [[-2, 0], [-1, 0], [0, 0], [1, 0]]\<rparr> \<and>
   (\<lambda>c. c ! 0) ` set [[-2, 0], [-1, 0], [0, 0], [1, 0::int]] = {-2..1} \<and>
   (\<lambda>c. c ! 1) ` set [[-2, 0], [-1, 0], [0, 0], [1, 0::int]] = {0}"
proof -
  have e: "odd (space_order ex_h)" and z: "0 \<le> space_order ex_h"
    by (simp_all add: ex_h_def)
  have d: "''x'' \<in> set [''x'']" by simp
  note odd_thm = stencil_footprint_odd_order [OF e z d]
  from odd_thm have "span ex_h [''x''] ''x'' =
      [- ((space_order ex_h + 1) div 2)..(space_order ex_h - 1) div 2]"
    by (rule conjunct1)
  then have s: "span ex_h [''x''] ''x'' = [-2, -1, 0, 1]" by (simp add: ex_h_def upto_m2_1)
  have ev: "stencil_footprint (Fn ex_h, [''x'']) =
     Inr \<lparr>nrows = 2, cols = [[-2, 0], [-1, 0], [0, 0], [1, 0]]\<rparr>"
    by (simp add: stencil_footprint_def ex_h_def span_def arange_def Let_def upto_m2_1)
  have sd: "space_dimensions ex_h \<noteq> []" by (simp add: ex_h_def)
  from odd_thm sd obtain fp where fp: "stencil_footprint (Fn ex_h, [''x'']) = Inr fp"
    and rows: "\<forall>i < length (space_dimensions ex_h).
                     (space_dimensions ex_h ! i \<in> set [''x''] \<longrightarrow>
                        (\<lambda>c. c ! i) ` set (cols fp) =
                          {- ((space_order ex_h + 1) div 2)..(space_order ex_h - 1) div 2}) \<and>
                     (space_dimensions ex_h ! i \<notin> set [''x''] \<longrightarrow>
                        (\<lambda>c. c ! i) ` set (cols fp) = {0})"
    by blast
  from fp ev have "fp = \<lparr>nrows = 2, cols = [[-2, 0], [-1, 0], [0, 0], [1, 0]]\<rparr>" by simp
  then have c: "cols fp = [[-2, 0], [-1, 0], [0, 0], [1, 0]]" by simp
  have i0: "0 < length (space_dimensions ex_h)" "space_dimensions ex_h ! 0 \<in> set [''x'']"
    and i1: "1 < length (space_dimensions ex_h)" "space_dimensions ex_h ! 1 \<notin> set [''x'']"
    by (simp_all add: ex_h_def)
  from rows i0 have "(\<lambda>c. c ! 0) ` set (cols fp) =
      {- ((space_order ex_h + 1) div 2)..(space_order ex_h - 1) div 2}" by blast
  then have r0: "(\<lambda>c. c ! 0) ` set [[-2, 0], [-1, 0], [0, 0], [1, 0::int]] = {-2..1}"
    unfolding c by (simp add: ex_h_def)
  from rows i1 have "(\<lambda>c. c ! 1) ` set (cols fp) = {0}" by blast
  then have r1: "(\<lambda>c. c ! 1) ` set [[-2, 0], [-1, 0], [0, 0], [1, 0::int]] = {0}"
    unfolding c .
  from e z s ev r0 r1 show ?thesis by simp
qed

section \<open>The modified skin\<close>

lemma trim_Inr:
  "trim shape dims mp = Inr cs \<Longrightarrow>
     cs = filter (\<lambda>p. \<forall>d \<in> set dims. 0 \<le> p ! d \<and> p ! d < shape ! d) mp \<and>
     (\<forall>d \<in> set dims. d < length shape)"
proof (induction dims arbitrary: mp)
  case Nil
  then show ?case by simp
next
  case (Cons dim dims)
  from Cons.prems have lt: "dim < length shape"
    by (simp split: if_splits)
  with Cons.prems have
    "trim shape dims (filter (\<lambda>p. 0 \<le> p ! dim \<and> p ! dim < shape ! dim) mp) = Inr cs"
    by simp
  from Cons.IH [OF this] lt show ?case
    by (auto intro: filter_cong)
qed

lemma trim_Nil: "\<forall>d \<in> set dims. d < length shape \<Longrightarrow> trim shape dims [] = Inr []"
  by (induction dims) simp_all

lemma get_points_Inr:
  assumes "get_points deriv g = Inr mp"
  shows "distinct (cols mp) \<and> nrows mp = length (grid_shape g) \<and>
         (\<forall>p \<in> set (cols mp).
            (\<forall>d < length (grid_shape g). 0 \<le> p ! d \<and> p ! d < grid_shape g ! d) \<and>
            interior_mask g p)"
proof -
  from assms obtain bp fp mp0 cs where
    mp0: "broadcast_sum bp fp = Inr mp0" and
    tr: "trim (grid_shape g) [0..<nrows (np_unique mp0)] (cols (np_unique mp0)) = Inr cs" and
    si: "select_interior g ((np_unique mp0)\<lparr>cols := cs\<rparr>) = Inr mp"
    by (auto simp: get_points_def Let_def split: sum.splits option.splits)
  from si have n: "nrows (np_unique mp0) = length (grid_shape g)"
    and mp: "cols mp = filter (interior_mask g) cs" and nm: "nrows mp = length (grid_shape g)"
    by (auto simp: select_interior_def split: if_splits)
  from trim_Inr [OF tr] have
    cs: "cs = filter (\<lambda>p. \<forall>d \<in> set [0..<nrows (np_unique mp0)].
                 0 \<le> p ! d \<and> p ! d < grid_shape g ! d) (cols (np_unique mp0))"
    by simp
  have "distinct (cols (np_unique mp0))" by (simp add: np_unique_def)
  then have "distinct (cols mp)" unfolding mp cs by simp
  moreover have "(\<forall>d < length (grid_shape g). 0 \<le> p ! d \<and> p ! d < grid_shape g ! d) \<and>
            interior_mask g p" if "p \<in> set (cols mp)" for p
    using that unfolding mp cs n by simp
  ultimately show ?thesis using nm by blast
qed

lemma ex_get_points:
  "get_points (Fn ex_f, [''y'', ''y'']) ex_geometry =
     Inr \<lparr>nrows = 2,
          cols = [[0, 1], [0, 2], [1, 1], [1, 2], [2, 1], [2, 2], [3, 1], [3, 2]]\<rparr>"
  by code_simp

text \<open>
  C5. When the construction of a skin succeeds, the columns of its point array are
  pairwise distinct, the array has one row per grid axis, and every point has on each axis
  an index from 0 up to, and not including, the extent of the grid on that axis, and is
  interior by the mask of the geometry. So the skin is a subset of the interior points of
  the grid, whatever the grid shape.
\<close>

theorem modified_points_interior_in_bounds:
  assumes "ModifiedSkin_init deriv g = Inr s"
  shows "distinct (cols (ms_mod_points s)) \<and>
         nrows (ms_mod_points s) = length (grid_shape g) \<and>
         (\<forall>p \<in> set (cols (ms_mod_points s)).
            (\<forall>d < length (grid_shape g). 0 \<le> p ! d \<and> p ! d < grid_shape g ! d) \<and>
            interior_mask g p)"
proof -
  from assms have "get_points deriv g = Inr (ms_mod_points s)"
    by (auto simp: ModifiedSkin_init_def split: sum.splits)
  then show ?thesis by (rule get_points_Inr)
qed

theorem modified_points_interior_in_bounds_witness:
  "ModifiedSkin_init (Fn ex_f, [''y'', ''y'']) ex_geometry =
     Inr \<lparr>ms_deriv = (Fn ex_f, [''y'', ''y'']), ms_geometry = ex_geometry,
          ms_mod_points = \<lparr>nrows = 2,
            cols = [[0, 1], [0, 2], [1, 1], [1, 2], [2, 1], [2, 2], [3, 1], [3, 2]]\<rparr>\<rparr> \<and>
   distinct [[0, 1], [0, 2], [1, 1], [1, 2], [2, 1], [2, 2], [3, 1], [3, 2::int]] \<and>
   interior_mask ex_geometry [3, 2] \<and> \<not> interior_mask ex_geometry [3, 3]"
proof -
  have E: "ModifiedSkin_init (Fn ex_f, [''y'', ''y'']) ex_geometry =
     Inr \<lparr>ms_deriv = (Fn ex_f, [''y'', ''y'']), ms_geometry = ex_geometry,
          ms_mod_points = \<lparr>nrows = 2,
            cols = [[0, 1], [0, 2], [1, 1], [1, 2], [2, 1], [2, 2], [3, 1], [3, 2]]\<rparr>\<rparr>"
    by (simp add: ModifiedSkin_init_def ex_get_points)
  from modified_points_interior_in_bounds [OF E]
  have "distinct [[0, 1], [0, 2], [1, 1], [1, 2], [2, 1], [2, 2], [3, 1], [3, 2::int]]"
    and "interior_mask ex_geometry [3, 2]"
    by simp_all
  moreover have "\<not> interior_mask ex_geometry [3, 3]"
    by (simp add: ex_geometry_def)
  ultimately show ?thesis using E by simp
qed

text \<open>
  C8. A geometry with no boundary point (every index array of \<open>boundary_points\<close> empty,
  one array per grid axis) and a derivative of a field on the same grid: the construction
  of the skin raises nothing and the skin has no point.
\<close>

theorem empty_boundary_empty_skin:
  assumes rows: "boundary_points g \<noteq> []"
    and empty: "\<forall>r \<in> set (boundary_points g). r = []"
    and bg: "length (boundary_points g) = length (grid_shape g)"
    and fg: "length (space_dimensions f) = length (grid_shape g)"
  shows "ModifiedSkin_init (Fn f, ddims) g =
           Inr \<lparr>ms_deriv = (Fn f, ddims), ms_geometry = g,
                ms_mod_points = \<lparr>nrows = length (grid_shape g), cols = []\<rparr>\<rparr>"
proof -
  have bp: "np_array (boundary_points g) =
      Inr (Some \<lparr>nrows = length (grid_shape g), cols = []\<rparr>)"
    using rows empty bg by (cases "boundary_points g") (auto simp: np_array_def)
  have sd: "space_dimensions f \<noteq> []" using rows bg fg by auto
  then have fp: "stencil_footprint (Fn f, ddims) =
      Inr \<lparr>nrows = length (grid_shape g),
           cols = meshgrid_xy (map (span f ddims) (space_dimensions f))\<rparr>"
    using fg by (simp add: stencil_footprint_def Let_def)
  have bs: "broadcast_sum \<lparr>nrows = length (grid_shape g), cols = []\<rparr>
      \<lparr>nrows = length (grid_shape g),
           cols = meshgrid_xy (map (span f ddims) (space_dimensions f))\<rparr>
      = Inr \<lparr>nrows = length (grid_shape g), cols = []\<rparr>"
    by (simp add: broadcast_sum_def)
  have un: "np_unique \<lparr>nrows = length (grid_shape g), cols = []\<rparr>
      = \<lparr>nrows = length (grid_shape g), cols = []\<rparr>"
    by (simp add: np_unique_def)
  have tr: "trim (grid_shape g) [0..<length (grid_shape g)] [] = Inr []"
    by (rule trim_Nil) simp
  have "get_points (Fn f, ddims) g = Inr \<lparr>nrows = length (grid_shape g), cols = []\<rparr>"
    by (simp add: get_points_def bp fp bs un tr select_interior_def Let_def)
  then show ?thesis by (simp add: ModifiedSkin_init_def)
qed


theorem empty_boundary_empty_skin_witness:
  "boundary_points ex_empty_geometry = [[], []] \<and>
   ModifiedSkin_init (Fn ex_f, [''x'']) ex_empty_geometry =
     Inr \<lparr>ms_deriv = (Fn ex_f, [''x'']), ms_geometry = ex_empty_geometry,
          ms_mod_points = \<lparr>nrows = 2, cols = []\<rparr>\<rparr>"
proof -
  have 1: "boundary_points ex_empty_geometry \<noteq> []"
    and 2: "\<forall>r \<in> set (boundary_points ex_empty_geometry). r = []"
    and 3: "length (boundary_points ex_empty_geometry) = length (grid_shape ex_empty_geometry)"
    and 4: "length (space_dimensions ex_f) = length (grid_shape ex_empty_geometry)"
    by (simp_all add: ex_empty_geometry_def ex_f_def)
  from empty_boundary_empty_skin [OF 1 2 3 4, of "[''x'']"]
  show ?thesis by (simp add: ex_empty_geometry_def)
qed

section \<open>A single boundary condition\<close>

lemma collect_dims_ok:
  "\<forall>d \<in> set derivs. \<exists>f. fst d = Fn f \<and> f \<in> set funcs \<Longrightarrow>
   \<exists>out. collect_dims funcs derivs dims = Inr out \<and>
         set out = set dims \<union> (\<Union>d \<in> set derivs. set (snd d))"
proof (induction derivs arbitrary: dims)
  case Nil
  then show ?case by simp
next
  case (Cons d derivs)
  from Cons.prems obtain f where f: "fst d = Fn f" "f \<in> set funcs" by auto
  from Cons.prems have "\<forall>d \<in> set derivs. \<exists>f. fst d = Fn f \<and> f \<in> set funcs" by simp
  from Cons.IH [OF this, of "tuple_of_set (dims @ snd d)"] f
  show ?case by (auto simp: tuple_of_set_def)
qed

lemma collect_dims_bad:
  "\<exists>d \<in> set derivs. \<not> (\<exists>f. fst d = Fn f \<and> f \<in> set funcs) \<Longrightarrow>
   collect_dims funcs derivs dims = Inl NotImplementedError"
proof (induction derivs arbitrary: dims)
  case Nil
  then show ?case by simp
next
  case (Cons d derivs)
  show ?case
  proof (cases "\<exists>f. fst d = Fn f \<and> f \<in> set funcs")
    case True
    with Cons.prems have "\<exists>d \<in> set derivs. \<not> (\<exists>f. fst d = Fn f \<and> f \<in> set funcs)" by auto
    from Cons.IH [OF this] True show ?thesis by auto
  next
    case False
    then show ?thesis by (cases "fst d") auto
  qed
qed

lemma get_derivative_dimensions_ok:
  assumes "\<forall>d \<in> set (find_derivatives (lhs eq)). \<exists>f. fst d = Fn f \<and> f \<in> set funcs"
  shows "\<exists>r. get_derivative_dimensions eq funcs = Inr r \<and>
             (r = None \<longleftrightarrow> (\<Union>d \<in> set (find_derivatives (lhs eq)). set (snd d)) = {}) \<and>
             (\<forall>ds. r = Some ds \<longrightarrow> set ds = (\<Union>d \<in> set (find_derivatives (lhs eq)). set (snd d)))"
proof -
  from assms have "\<forall>d \<in> set (tuple_of_set (find_derivatives (lhs eq))). \<exists>f. fst d = Fn f \<and> f \<in> set funcs"
    by (simp add: tuple_of_set_def)
  from collect_dims_ok [OF this, of "[]"] obtain out where
    out: "collect_dims funcs (tuple_of_set (find_derivatives (lhs eq))) [] = Inr out"
      "set out = (\<Union>d \<in> set (find_derivatives (lhs eq)). set (snd d))"
    by (auto simp: tuple_of_set_def)
  show ?thesis
  proof (cases "out = []")
    case True
    with out show ?thesis by (simp add: get_derivative_dimensions_def)
  next
    case False
    then have "set out \<noteq> {}" by simp
    with out False show ?thesis by (simp add: get_derivative_dimensions_def)
  qed
qed

lemma get_derivative_dimensions_bad:
  assumes "\<exists>d \<in> set (find_derivatives (lhs eq)). \<not> (\<exists>f. fst d = Fn f \<and> f \<in> set funcs)"
  shows "get_derivative_dimensions eq funcs = Inl NotImplementedError"
proof -
  from assms have "\<exists>d \<in> set (tuple_of_set (find_derivatives (lhs eq))). \<not> (\<exists>f. fst d = Fn f \<and> f \<in> set funcs)"
    by (simp add: tuple_of_set_def)
  from collect_dims_bad [OF this] show ?thesis
    by (simp add: get_derivative_dimensions_def)
qed

lemma ex_eq_deriv_init:
  "BoundaryCondition_init ex_eq_deriv None =
     Inr \<lparr>bc_eq = ex_eq_deriv, bc_funcs = [ex_f], bc_dims = Some [''x'']\<rparr>"
  by (simp add: BoundaryCondition_init_def parse_rhs_def get_functions_def
      get_derivative_dimensions_def tuple_of_set_def ex_eq_deriv_def ex_f_def Let_def)

text \<open>
  C4. The construction of a boundary condition raises \<open>NotImplementedError\<close> exactly when
  the right-hand side is not zero, or some derivative of the left-hand side differentiates
  an expression that is not a field, or differentiates a field that is not among the
  selected ones; in every other case it returns the condition, with the equation and the
  selected fields.
\<close>

theorem BoundaryCondition_init_fails_iff:
  "(BoundaryCondition_init eq funcs = Inl NotImplementedError \<longleftrightarrow>
      (rhs eq \<noteq> Num 0 \<or>
       (\<exists>d \<in> set (find_derivatives (lhs eq)).
          (\<forall>f. fst d \<noteq> Fn f) \<or> (\<exists>f. fst d = Fn f \<and> f \<notin> set (get_functions eq funcs))))) \<and>
   ((\<exists>bc. BoundaryCondition_init eq funcs = Inr bc \<and> bc_eq bc = eq \<and>
          bc_funcs bc = get_functions eq funcs) \<longleftrightarrow>
      \<not> (rhs eq \<noteq> Num 0 \<or>
       (\<exists>d \<in> set (find_derivatives (lhs eq)).
          (\<forall>f. fst d \<noteq> Fn f) \<or> (\<exists>f. fst d = Fn f \<and> f \<notin> set (get_functions eq funcs)))))"
proof (cases "rhs eq \<noteq> Num 0")
  case True
  then show ?thesis by (simp add: BoundaryCondition_init_def parse_rhs_def)
next
  case False
  note rhs0 = this
  show ?thesis
  proof (cases "\<forall>d \<in> set (find_derivatives (lhs eq)). \<exists>f. fst d = Fn f \<and> f \<in> set (get_functions eq funcs)")
    case True
    from get_derivative_dimensions_ok [OF True] obtain r where
      "get_derivative_dimensions eq (get_functions eq funcs) = Inr r" by blast
    then have "BoundaryCondition_init eq funcs =
        Inr \<lparr>bc_eq = eq, bc_funcs = get_functions eq funcs, bc_dims = r\<rparr>"
      using rhs0 by (simp add: BoundaryCondition_init_def parse_rhs_def Let_def)
    moreover have "\<not> (\<exists>d \<in> set (find_derivatives (lhs eq)).
          (\<forall>f. fst d \<noteq> Fn f) \<or> (\<exists>f. fst d = Fn f \<and> f \<notin> set (get_functions eq funcs)))"
      using True by fastforce
    ultimately show ?thesis using rhs0 by simp
  next
    case False
    then have bad: "\<exists>d \<in> set (find_derivatives (lhs eq)). \<not> (\<exists>f. fst d = Fn f \<and> f \<in> set (get_functions eq funcs))"
      by simp
    from get_derivative_dimensions_bad [OF bad]
    have "BoundaryCondition_init eq funcs = Inl NotImplementedError"
      using rhs0 by (simp add: BoundaryCondition_init_def parse_rhs_def Let_def)
    moreover have "\<exists>d \<in> set (find_derivatives (lhs eq)).
          (\<forall>f. fst d \<noteq> Fn f) \<or> (\<exists>f. fst d = Fn f \<and> f \<notin> set (get_functions eq funcs))"
      using bad by fastforce
    ultimately show ?thesis by simp
  qed
qed

theorem BoundaryCondition_init_fails_iff_witness:
  "BoundaryCondition_init ex_eq_rhs None = Inl NotImplementedError \<and>
   BoundaryCondition_init ex_eq_coeff None = Inl NotImplementedError \<and>
   (\<exists>bc. BoundaryCondition_init ex_eq_deriv None = Inr bc \<and> bc_funcs bc = [ex_f])"
proof -
  have "rhs ex_eq_rhs \<noteq> Num 0" by (simp add: ex_eq_rhs_def)
  with BoundaryCondition_init_fails_iff [of ex_eq_rhs None]
  have 1: "BoundaryCondition_init ex_eq_rhs None = Inl NotImplementedError" by blast
  have gc: "get_functions ex_eq_coeff None = [ex_f]"
    by (simp add: get_functions_def tuple_of_set_def ex_eq_coeff_def ex_f_def ex_c_def)
  have "(Fn ex_c, [''x'']) \<in> set (find_derivatives (lhs ex_eq_coeff))"
    by (simp add: ex_eq_coeff_def)
  moreover have "\<exists>f. fst (Fn ex_c, [''x'']) = Fn f \<and> f \<notin> set (get_functions ex_eq_coeff None)"
    unfolding gc by (simp add: ex_f_def ex_c_def)
  ultimately have "\<exists>d \<in> set (find_derivatives (lhs ex_eq_coeff)).
      (\<forall>f. fst d \<noteq> Fn f) \<or> (\<exists>f. fst d = Fn f \<and> f \<notin> set (get_functions ex_eq_coeff None))"
    by blast
  with BoundaryCondition_init_fails_iff [of ex_eq_coeff None]
  have 2: "BoundaryCondition_init ex_eq_coeff None = Inl NotImplementedError" by blast
  have gd: "get_functions ex_eq_deriv None = [ex_f]"
    by (simp add: get_functions_def tuple_of_set_def ex_eq_deriv_def ex_f_def)
  have "\<not> (rhs ex_eq_deriv \<noteq> Num 0 \<or>
       (\<exists>d \<in> set (find_derivatives (lhs ex_eq_deriv)).
          (\<forall>f. fst d \<noteq> Fn f) \<or> (\<exists>f. fst d = Fn f \<and> f \<notin> set (get_functions ex_eq_deriv None))))"
    unfolding gd by (simp add: ex_eq_deriv_def)
  with BoundaryCondition_init_fails_iff [of ex_eq_deriv None]
  have 3: "\<exists>bc. BoundaryCondition_init ex_eq_deriv None = Inr bc \<and> bc_funcs bc = [ex_f]"
    unfolding gd by blast
  from 1 2 3 show ?thesis by blast
qed

text \<open>
  C7. For a boundary condition that was constructed, \<open>dims\<close> is \<open>None\<close> exactly when the
  union of the axes of the derivatives of selected fields is empty, and otherwise it holds
  exactly that union. A derivative of the symbolic layer names at least one axis; then
  \<open>dims\<close> is \<open>None\<close> exactly when the left-hand side has no derivative.
\<close>

theorem BoundaryCondition_dims:
  assumes "BoundaryCondition_init eq funcs = Inr bc"
  shows "(bc_dims bc = None \<longleftrightarrow>
            (\<Union>d \<in> {d \<in> set (find_derivatives (lhs eq)). \<exists>f. fst d = Fn f \<and> f \<in> set (bc_funcs bc)}.
               set (snd d)) = {}) \<and>
         (\<forall>ds. bc_dims bc = Some ds \<longrightarrow>
            set ds = (\<Union>d \<in> {d \<in> set (find_derivatives (lhs eq)). \<exists>f. fst d = Fn f \<and> f \<in> set (bc_funcs bc)}.
               set (snd d))) \<and>
         ((\<forall>d \<in> set (find_derivatives (lhs eq)). snd d \<noteq> []) \<longrightarrow>
            (bc_dims bc = None \<longleftrightarrow> find_derivatives (lhs eq) = []))"
proof -
  from assms have rhs0: "rhs eq = Num 0"
    by (auto simp: BoundaryCondition_init_def parse_rhs_def split: if_splits)
  from assms rhs0 have gd: "get_derivative_dimensions eq (get_functions eq funcs) = Inr (bc_dims bc)"
    and fs: "bc_funcs bc = get_functions eq funcs"
    by (auto simp: BoundaryCondition_init_def parse_rhs_def Let_def split: sum.splits)
  have ok: "\<forall>d \<in> set (find_derivatives (lhs eq)). \<exists>f. fst d = Fn f \<and> f \<in> set (get_functions eq funcs)"
  proof (rule ccontr)
    assume "\<not> ?thesis"
    then have "\<exists>d \<in> set (find_derivatives (lhs eq)). \<not> (\<exists>f. fst d = Fn f \<and> f \<in> set (get_functions eq funcs))"
      by simp
    from get_derivative_dimensions_bad [OF this] gd show False by simp
  qed
  then have all: "{d \<in> set (find_derivatives (lhs eq)). \<exists>f. fst d = Fn f \<and> f \<in> set (bc_funcs bc)}
      = set (find_derivatives (lhs eq))"
    unfolding fs by blast
  from get_derivative_dimensions_ok [OF ok] gd
  have A: "bc_dims bc = None \<longleftrightarrow> (\<Union>d \<in> set (find_derivatives (lhs eq)). set (snd d)) = {}"
    and B: "\<forall>ds. bc_dims bc = Some ds \<longrightarrow> set ds = (\<Union>d \<in> set (find_derivatives (lhs eq)). set (snd d))"
    by auto
  have C: "bc_dims bc = None \<longleftrightarrow> find_derivatives (lhs eq) = []"
    if "\<forall>d \<in> set (find_derivatives (lhs eq)). snd d \<noteq> []"
  proof -
    have "(\<Union>d \<in> set (find_derivatives (lhs eq)). set (snd d)) = {} \<longleftrightarrow> find_derivatives (lhs eq) = []"
      using that by (cases "find_derivatives (lhs eq)") auto
    with A show ?thesis by simp
  qed
  show ?thesis unfolding all using A B C by blast
qed


theorem BoundaryCondition_dims_witness:
  "BoundaryCondition_init ex_eq_deriv None =
     Inr \<lparr>bc_eq = ex_eq_deriv, bc_funcs = [ex_f], bc_dims = Some [''x'']\<rparr> \<and>
   set [''x''] = (\<Union>d \<in> {d \<in> set (find_derivatives (lhs ex_eq_deriv)).
                      \<exists>f. fst d = Fn f \<and> f \<in> set [ex_f]}. set (snd d)) \<and>
   find_derivatives (lhs ex_eq_deriv) \<noteq> []"
proof -
  from BoundaryCondition_dims [OF ex_eq_deriv_init]
  have "set [''x''] = (\<Union>d \<in> {d \<in> set (find_derivatives (lhs ex_eq_deriv)).
                      \<exists>f. fst d = Fn f \<and> f \<in> set [ex_f]}. set (snd d))"
    by simp
  moreover have "find_derivatives (lhs ex_eq_deriv) \<noteq> []"
    by (simp add: ex_eq_deriv_def)
  ultimately show ?thesis using ex_eq_deriv_init by blast
qed

section \<open>Connected components\<close>

lemma sym_graph_rel: "sym (graph_rel g)"
  by (auto simp: graph_rel_def sym_def)

lemma sym_rtrancl_graph_rel: "(u, w) \<in> (graph_rel g)\<^sup>* \<Longrightarrow> (w, u) \<in> (graph_rel g)\<^sup>*"
  using sym_graph_rel [of g] sym_rtrancl [of "graph_rel g"] by (auto elim: symE)

lemma component_eq:
  assumes "w \<in> (graph_rel g)\<^sup>* `` {v}"
  shows "(graph_rel g)\<^sup>* `` {w} = (graph_rel g)\<^sup>* `` {v}"
proof -
  from assms have vw: "(v, w) \<in> (graph_rel g)\<^sup>*" by simp
  then have wv: "(w, v) \<in> (graph_rel g)\<^sup>*" by (rule sym_rtrancl_graph_rel)
  show ?thesis using vw wv by (auto intro: rtrancl_trans)
qed

lemma closed_Image_rtrancl:
  assumes "\<And>u w. u \<in> A \<Longrightarrow> (u, w) \<in> R \<Longrightarrow> w \<in> A"
  shows "R\<^sup>* `` A = A"
proof
  show "R\<^sup>* `` A \<subseteq> A"
  proof
    fix w assume "w \<in> R\<^sup>* `` A"
    then obtain u where "u \<in> A" "(u, w) \<in> R\<^sup>*" by auto
    from this(2) this(1) show "w \<in> A"
      by (induction rule: rtrancl_induct) (auto intro: assms)
  qed
  show "A \<subseteq> R\<^sup>* `` A" by auto
qed

lemma frontier_subset:
  "w \<in> set (frontier g seen) \<Longrightarrow> w \<in> set (g_nodes g) \<and> w \<notin> set seen \<and> w \<in> graph_rel g `` set seen"
  by (auto simp: frontier_def graph_rel_def)

lemma frontier_Nil_closed:
  assumes "frontier g seen = []" "closed_graph g" "u \<in> set seen" "(u, w) \<in> graph_rel g"
  shows "w \<in> set seen"
proof (rule ccontr)
  assume n: "w \<notin> set seen"
  from assms(2,4) have "w \<in> set (g_nodes g)"
    by (auto simp: closed_graph_def graph_rel_def)
  with n assms(3,4) have "w \<in> set (frontier g seen)"
    by (auto simp: frontier_def graph_rel_def)
  with assms(1) show False by simp
qed

lemma set_plain_bfs:
  "closed_graph g \<Longrightarrow> set (plain_bfs g seen) = (graph_rel g)\<^sup>* `` set seen"
proof (induction g seen rule: plain_bfs.induct)
  case (1 g seen)
  show ?case
  proof (cases "frontier g seen = []")
    case True
    have "(graph_rel g)\<^sup>* `` set seen = set seen"
      by (rule closed_Image_rtrancl) (rule frontier_Nil_closed [OF True "1.prems"])
    moreover have "plain_bfs g seen = seen"
      using True by (subst plain_bfs.simps) simp
    ultimately show ?thesis by simp
  next
    case False
    have eq: "plain_bfs g seen = plain_bfs g (seen @ frontier g seen)"
      using False by (subst plain_bfs.simps) simp
    have "set (plain_bfs g (seen @ frontier g seen)) = (graph_rel g)\<^sup>* `` set (seen @ frontier g seen)"
      by (rule "1.IH" [OF False "1.prems"])
    also have "\<dots> = (graph_rel g)\<^sup>* `` set seen"
    proof
      show "(graph_rel g)\<^sup>* `` set (seen @ frontier g seen) \<subseteq> (graph_rel g)\<^sup>* `` set seen"
      proof
        fix w assume "w \<in> (graph_rel g)\<^sup>* `` set (seen @ frontier g seen)"
        then obtain u where u: "u \<in> set seen \<or> u \<in> set (frontier g seen)"
          and uw: "(u, w) \<in> (graph_rel g)\<^sup>*" by auto
        from u show "w \<in> (graph_rel g)\<^sup>* `` set seen"
        proof
          assume "u \<in> set seen" with uw show ?thesis by auto
        next
          assume "u \<in> set (frontier g seen)"
          then obtain s where "s \<in> set seen" "(s, u) \<in> graph_rel g"
            using frontier_subset [of u g seen] by auto
          with uw have "(s, w) \<in> (graph_rel g)\<^sup>*" by (auto intro: converse_rtrancl_into_rtrancl)
          with \<open>s \<in> set seen\<close> show ?thesis by auto
        qed
      qed
      show "(graph_rel g)\<^sup>* `` set seen \<subseteq> (graph_rel g)\<^sup>* `` set (seen @ frontier g seen)"
        by auto
    qed
    finally show ?thesis using eq by simp
  qed
qed

lemma components_from_sets:
  assumes "closed_graph g"
    and "(graph_rel g)\<^sup>* `` set seen = set seen"
  shows "set (map set (components_from g seen vs)) =
           {(graph_rel g)\<^sup>* `` {v} | v. v \<in> set vs \<and> v \<notin> set seen} \<and>
         distinct (map set (components_from g seen vs)) \<and>
         (\<forall>c \<in> set (components_from g seen vs). set c \<inter> set seen = {})"
  using assms(2)
proof (induction vs arbitrary: seen)
  case Nil
  then show ?case by simp
next
  case (Cons v vs)
  let ?R = "(graph_rel g)\<^sup>*"
  show ?case
  proof (cases "v \<in> set seen")
    case True
    from Cons.IH [OF Cons.prems] True show ?thesis by auto
  next
    case False
    let ?c = "plain_bfs g [v]"
    have c: "set ?c = ?R `` {v}" using set_plain_bfs [OF assms(1), of "[v]"] by simp
    have closed': "?R `` set (seen @ ?c) = set (seen @ ?c)"
    proof -
      have "?R `` (?R `` {v}) = ?R `` {v}" by (auto intro: rtrancl_trans)
      then show ?thesis using Cons.prems c by (auto simp: Image_Un)
    qed
    note IH = Cons.IH [OF closed']
    have cf: "components_from g seen (v # vs) = ?c # components_from g (seen @ ?c) vs"
      using False by (simp add: Let_def)
    have disj: "set ?c \<inter> set seen = {}"
    proof (rule ccontr)
      assume "set ?c \<inter> set seen \<noteq> {}"
      then obtain w where w: "w \<in> ?R `` {v}" "w \<in> set seen" using c by auto
      then have "(w, v) \<in> ?R" using sym_rtrancl_graph_rel by fastforce
      with w(2) have "v \<in> ?R `` set seen" by auto
      with Cons.prems False show False by simp
    qed
    have sets: "{?R `` {w} | w. w \<in> set (v # vs) \<and> w \<notin> set seen} =
        insert (set ?c) {?R `` {w} | w. w \<in> set vs \<and> w \<notin> set (seen @ ?c)}" (is "?L = ?M")
    proof
      show "?L \<subseteq> ?M"
      proof
        fix X assume "X \<in> ?L"
        then obtain w where w: "X = ?R `` {w}" "w \<in> set (v # vs)" "w \<notin> set seen" by auto
        show "X \<in> ?M"
        proof (cases "w \<in> set ?c")
          case True
          then have "?R `` {w} = ?R `` {v}" unfolding c by (rule component_eq)
          with w c show ?thesis by simp
        next
          case False
          then have "w \<noteq> v" using c by auto
          with w False show ?thesis by auto
        qed
      qed
      show "?M \<subseteq> ?L" using False c by auto
    qed
    have notin: "set ?c \<notin> set (map set (components_from g (seen @ ?c) vs))"
    proof
      assume "set ?c \<in> set (map set (components_from g (seen @ ?c) vs))"
      then obtain c' where c': "c' \<in> set (components_from g (seen @ ?c) vs)" "set c' = set ?c"
        by auto
      with IH have "set c' \<inter> set (seen @ ?c) = {}" by blast
      with c'(2) have "set ?c = {}" by auto
      with c show False by auto
    qed
    have d3: "\<forall>c' \<in> set (components_from g (seen @ ?c) vs). set c' \<inter> set seen = {}"
      using IH by auto
    show ?thesis
      unfolding cf sets using IH notin disj d3 by simp
  qed
qed

lemma connected_components_sets:
  assumes "closed_graph g"
  shows "set (map set (connected_components g)) =
           {(graph_rel g)\<^sup>* `` {v} | v. v \<in> set (g_nodes g)}"
    and "distinct (map set (connected_components g))"
  using components_from_sets [OF assms, of "[]" "g_nodes g"]
  by (simp_all add: connected_components_def)

subsection \<open>The graph the grouping builds\<close>

lemma add_node_nodes: "set (g_nodes (add_node g v)) = insert v (set (g_nodes g))"
  by (auto simp: add_node_def)

lemma add_node_edges: "g_edges (add_node g v) = g_edges g"
  by (simp add: add_node_def)

lemma add_nodes_from_nodes: "set (g_nodes (add_nodes_from g vs)) = set (g_nodes g) \<union> set vs"
  unfolding add_nodes_from_def
  by (induction vs arbitrary: g) (auto simp: add_node_nodes)

lemma add_nodes_from_edges: "g_edges (add_nodes_from g vs) = g_edges g"
  unfolding add_nodes_from_def
  by (induction vs arbitrary: g) (auto simp: add_node_edges)

lemma add_edge_nodes: "set (g_nodes (add_edge g e)) = insert (fst e) (insert (snd e) (set (g_nodes g)))"
  by (auto simp: add_edge_def Let_def add_node_nodes)

lemma add_edge_edges: "set (g_edges (add_edge g e)) = insert e (set (g_edges g))"
  by (auto simp: add_edge_def Let_def add_node_edges)

lemma add_edges_from_nodes:
  "set (g_nodes (add_edges_from g es)) = set (g_nodes g) \<union> fst ` set es \<union> snd ` set es"
  unfolding add_edges_from_def
  by (induction es arbitrary: g) (auto simp: add_edge_nodes)

lemma add_edges_from_edges: "set (g_edges (add_edges_from g es)) = set (g_edges g) \<union> set es"
  unfolding add_edges_from_def
  by (induction es arbitrary: g) (auto simp: add_edge_edges)

lemma star_edges_ends: "e \<in> set (star_edges fs) \<Longrightarrow> fst e \<in> set fs \<and> snd e \<in> set fs"
  by (cases fs) (auto simp: star_edges_def)

lemma star_edges_set:
  "set (star_edges fs) = {(u, w). fs \<noteq> [] \<and> u = hd fs \<and> w \<in> set (tl fs)}"
  by (cases fs) (auto simp: star_edges_def)

lemma foldl_build_nodes:
  "set (g_nodes (foldl (\<lambda>g bc. add_edges_from (add_nodes_from g (bc_funcs bc)) (star_edges (bc_funcs bc))) g0 bcs))
     = set (g_nodes g0) \<union> field_nodes bcs"
proof (induction bcs arbitrary: g0)
  case Nil
  then show ?case by (simp add: field_nodes_def)
next
  case (Cons bc bcs)
  have "fst ` set (star_edges (bc_funcs bc)) \<union> snd ` set (star_edges (bc_funcs bc)) \<subseteq> set (bc_funcs bc)"
    using star_edges_ends by fastforce
  then show ?case
    unfolding foldl_Cons Cons.IH
    by (auto simp: field_nodes_def add_edges_from_nodes add_nodes_from_nodes)
qed

lemma foldl_build_edges:
  "set (g_edges (foldl (\<lambda>g bc. add_edges_from (add_nodes_from g (bc_funcs bc)) (star_edges (bc_funcs bc))) g0 bcs))
     = set (g_edges g0) \<union> (\<Union>bc \<in> set bcs. set (star_edges (bc_funcs bc)))"
proof (induction bcs arbitrary: g0)
  case Nil
  then show ?case by simp
next
  case (Cons bc bcs)
  show ?case
    unfolding foldl_Cons Cons.IH
    by (auto simp: add_edges_from_edges add_nodes_from_edges)
qed

lemma build_graph_nodes: "set (g_nodes (build_graph bcs)) = field_nodes bcs"
  unfolding build_graph_def foldl_build_nodes by (simp add: empty_graph_def)

lemma build_graph_edges:
  "set (g_edges (build_graph bcs)) = (\<Union>bc \<in> set bcs. set (star_edges (bc_funcs bc)))"
  unfolding build_graph_def foldl_build_edges by (simp add: empty_graph_def)

lemma build_graph_closed: "closed_graph (build_graph bcs)"
  unfolding closed_graph_def build_graph_nodes build_graph_edges
  using star_edges_ends by (fastforce simp: field_nodes_def)

lemma build_graph_rel: "graph_rel (build_graph bcs) = field_edges bcs"
  unfolding graph_rel_def build_graph_edges field_edges_def star_edges_set
  by auto

lemma build_graph_components:
  "set (map set (connected_components (build_graph bcs))) = field_components bcs"
  "distinct (map set (connected_components (build_graph bcs)))"
  using connected_components_sets [OF build_graph_closed, of bcs]
  by (simp_all add: build_graph_rel build_graph_nodes field_components_def)

lemma connected_components_Nil: "connected_components g = [] \<longleftrightarrow> g_nodes g = []"
  by (cases "g_nodes g") (simp_all add: connected_components_def Let_def)

subsection \<open>The loop over the components\<close>

lemma select_conditions_empty:
  "\<exists>bc \<in> set bcs. bc_funcs bc = [] \<Longrightarrow> select_conditions bcs grp = Inl IndexError"
proof (induction bcs)
  case Nil
  then show ?case by simp
next
  case (Cons bc bcs)
  show ?case
  proof (cases "bc_funcs bc")
    case Nil
    then show ?thesis by simp
  next
    case (Cons f0 rest)
    with Cons.prems have "\<exists>bc \<in> set bcs. bc_funcs bc = []" by auto
    from Cons.IH [OF this] Cons show ?thesis by simp
  qed
qed

lemma select_conditions_nonempty:
  "\<forall>bc \<in> set bcs. bc_funcs bc \<noteq> [] \<Longrightarrow>
   select_conditions bcs grp = Inr (filter (\<lambda>bc. hd (bc_funcs bc) \<in> set grp) bcs)"
proof (induction bcs)
  case Nil
  then show ?case by simp
next
  case (Cons bc bcs)
  then obtain f0 rest where "bc_funcs bc = f0 # rest" by (cases "bc_funcs bc") auto
  with Cons show ?case by simp
qed

lemma group_loop_empty:
  "\<exists>bc \<in> set bcs. bc_funcs bc = [] \<Longrightarrow> groups \<noteq> [] \<Longrightarrow>
   group_loop bcs groups st = Inl IndexError"
  by (cases groups) (simp_all add: select_conditions_empty)

lemma group_loop_nonempty:
  "\<forall>bc \<in> set bcs. bc_funcs bc \<noteq> [] \<Longrightarrow>
   \<exists>m. group_loop bcs groups st =
     Inr (fst st @ map (\<lambda>grp. \<lparr>cg_conds = filter (\<lambda>bc. hd (bc_funcs bc) \<in> set grp) bcs,
                               cg_funcs = grp\<rparr>) groups, m)"
proof (induction groups arbitrary: st)
  case Nil
  then show ?case by (cases st) simp
next
  case (Cons grp groups)
  let ?ng = "\<lparr>cg_conds = filter (\<lambda>bc. hd (bc_funcs bc) \<in> set grp) bcs, cg_funcs = grp\<rparr>"
  let ?st = "(fst st @ [?ng], fold (\<lambda>f m. m(f \<mapsto> ?ng)) grp (snd st))"
  from Cons.IH [OF Cons.prems, of ?st] obtain m where
    "group_loop bcs groups ?st =
       Inr (fst ?st @ map (\<lambda>grp. \<lparr>cg_conds = filter (\<lambda>bc. hd (bc_funcs bc) \<in> set grp) bcs,
                               cg_funcs = grp\<rparr>) groups, m)"
    by blast
  then show ?case
    by (simp add: select_conditions_nonempty [OF Cons.prems] Let_def)
qed

lemma group_bcs_error:
  assumes "\<exists>bc \<in> set bcs. bc_funcs bc = []" and "\<exists>bc \<in> set bcs. bc_funcs bc \<noteq> []"
  shows "group_bcs bcs = Inl IndexError"
proof -
  from assms(2) have "field_nodes bcs \<noteq> {}" by (auto simp: field_nodes_def)
  then have "g_nodes (build_graph bcs) \<noteq> []"
    using build_graph_nodes [of bcs] by auto
  then have "connected_components (build_graph bcs) \<noteq> []"
    by (simp add: connected_components_Nil)
  with assms(1) show ?thesis
    unfolding group_bcs_def by (rule group_loop_empty)
qed

lemma group_bcs_no_fields:
  assumes "\<forall>bc \<in> set bcs. bc_funcs bc = []"
  shows "group_bcs bcs = Inr ([], Map.empty)"
proof -
  from assms have "field_nodes bcs = {}" by (auto simp: field_nodes_def)
  then have "g_nodes (build_graph bcs) = []"
    using build_graph_nodes [of bcs] by auto
  then have "connected_components (build_graph bcs) = []"
    by (simp add: connected_components_Nil)
  then show ?thesis by (simp add: group_bcs_def)
qed

lemma group_bcs_nonempty:
  assumes "\<forall>bc \<in> set bcs. bc_funcs bc \<noteq> []"
  shows "\<exists>m. group_bcs bcs =
     Inr (map (\<lambda>grp. \<lparr>cg_conds = filter (\<lambda>bc. hd (bc_funcs bc) \<in> set grp) bcs,
                      cg_funcs = grp\<rparr>) (connected_components (build_graph bcs)), m)"
  using group_loop_nonempty [OF assms, of "connected_components (build_graph bcs)" "([], Map.empty)"]
  by (simp add: group_bcs_def)

subsection \<open>Fields of one condition lie in one component\<close>

lemma sym_field_edges: "(u, w) \<in> field_edges bcs \<Longrightarrow> (w, u) \<in> field_edges bcs"
  by (auto simp: field_edges_def)

lemma sym_rtrancl_field_edges:
  "(u, w) \<in> (field_edges bcs)\<^sup>* \<Longrightarrow> (w, u) \<in> (field_edges bcs)\<^sup>*"
  using sym_rtrancl_graph_rel [of u w "build_graph bcs"] by (simp add: build_graph_rel)

lemma hd_reaches:
  assumes "bc \<in> set bcs" "f \<in> set (bc_funcs bc)"
  shows "(hd (bc_funcs bc), f) \<in> (field_edges bcs)\<^sup>*"
proof (cases "f = hd (bc_funcs bc)")
  case True
  then show ?thesis by simp
next
  case False
  from assms(2) have ne: "bc_funcs bc \<noteq> []" by auto
  with assms(2) False have "f \<in> set (tl (bc_funcs bc))"
    by (cases "bc_funcs bc") auto
  with assms(1) ne have "(hd (bc_funcs bc), f) \<in> field_edges bcs"
    by (auto simp: field_edges_def)
  then show ?thesis by simp
qed

lemma same_condition_reaches:
  assumes "bc \<in> set bcs" "u \<in> set (bc_funcs bc)" "w \<in> set (bc_funcs bc)"
  shows "(u, w) \<in> (field_edges bcs)\<^sup>*"
proof -
  have "(u, hd (bc_funcs bc)) \<in> (field_edges bcs)\<^sup>*"
    using hd_reaches [OF assms(1,2)] by (rule sym_rtrancl_field_edges)
  with hd_reaches [OF assms(1,3)] show ?thesis by (rule rtrancl_trans [rotated])
qed

lemma field_edge_condition:
  assumes "(u, w) \<in> field_edges bcs"
  shows "\<exists>bc \<in> set bcs. u \<in> set (bc_funcs bc) \<and> w \<in> set (bc_funcs bc)"
proof -
  from assms obtain bc where bc: "bc \<in> set bcs" "bc_funcs bc \<noteq> []"
    and c: "(u = hd (bc_funcs bc) \<and> w \<in> set (tl (bc_funcs bc))) \<or>
            (w = hd (bc_funcs bc) \<and> u \<in> set (tl (bc_funcs bc)))"
    by (auto simp: field_edges_def)
  from bc(2) have "hd (bc_funcs bc) \<in> set (bc_funcs bc)" by simp
  moreover have "set (tl (bc_funcs bc)) \<subseteq> set (bc_funcs bc)"
    using bc(2) by (cases "bc_funcs bc") auto
  ultimately show ?thesis using bc(1) c by blast
qed

lemma hd_in_component_iff:
  assumes "bc \<in> set bcs" "bc_funcs bc \<noteq> []"
  shows "hd (bc_funcs bc) \<in> (field_edges bcs)\<^sup>* `` {v} \<longleftrightarrow>
         set (bc_funcs bc) \<inter> (field_edges bcs)\<^sup>* `` {v} \<noteq> {}"
proof
  assume "hd (bc_funcs bc) \<in> (field_edges bcs)\<^sup>* `` {v}"
  moreover have "hd (bc_funcs bc) \<in> set (bc_funcs bc)" using assms(2) by simp
  ultimately show "set (bc_funcs bc) \<inter> (field_edges bcs)\<^sup>* `` {v} \<noteq> {}" by blast
next
  assume "set (bc_funcs bc) \<inter> (field_edges bcs)\<^sup>* `` {v} \<noteq> {}"
  then obtain f where f: "f \<in> set (bc_funcs bc)" "(v, f) \<in> (field_edges bcs)\<^sup>*" by auto
  have "(f, hd (bc_funcs bc)) \<in> (field_edges bcs)\<^sup>*"
    using hd_reaches [OF assms(1) f(1)] by (rule sym_rtrancl_field_edges)
  with f(2) have "(v, hd (bc_funcs bc)) \<in> (field_edges bcs)\<^sup>*" by (rule rtrancl_trans)
  then show "hd (bc_funcs bc) \<in> (field_edges bcs)\<^sup>* `` {v}" by simp
qed

section \<open>Grouping: a condition with no selected field\<close>

text \<open>
  C9. When the equations flatten and every boundary condition is constructed, and one
  condition has an empty tuple of selected fields while another has a field, the grouping
  raises \<open>IndexError\<close>, and so does the construction of \<open>BoundaryConditions\<close>: the graph
  has a component, and selecting its conditions reads \<open>funcs[0]\<close> of every condition.
\<close>

theorem empty_field_set_raises_IndexError:
  assumes "flatten_equations eqs = Inr es"
    and "setup_bcs es (flatten_functions funcs) = Inr bcs"
    and "\<exists>bc \<in> set bcs. bc_funcs bc = []"
    and "\<exists>bc \<in> set bcs. bc_funcs bc \<noteq> []"
  shows "group_bcs bcs = Inl IndexError \<and> BoundaryConditions_init eqs funcs = Inl IndexError"
proof -
  have "group_bcs bcs = Inl IndexError"
    using assms(3,4) by (rule group_bcs_error)
  then show ?thesis
    using assms(1,2) by (simp add: BoundaryConditions_init_def Let_def)
qed

theorem empty_field_set_raises_IndexError_witness:
  "flatten_equations ex_eqs_whitelist =
     Inr [\<lparr>lhs = Fn ex_f, rhs = Num 0\<rparr>, \<lparr>lhs = Fn ex_h, rhs = Num 0\<rparr>] \<and>
   setup_bcs [\<lparr>lhs = Fn ex_f, rhs = Num 0\<rparr>, \<lparr>lhs = Fn ex_h, rhs = Num 0\<rparr>]
       (flatten_functions (Some [ScalarFunction ex_f])) =
     Inr [\<lparr>bc_eq = \<lparr>lhs = Fn ex_f, rhs = Num 0\<rparr>, bc_funcs = [ex_f], bc_dims = None\<rparr>,
          \<lparr>bc_eq = \<lparr>lhs = Fn ex_h, rhs = Num 0\<rparr>, bc_funcs = [], bc_dims = None\<rparr>] \<and>
   BoundaryConditions_init ex_eqs_whitelist (Some [ScalarFunction ex_f]) = Inl IndexError"
proof -
  have ne: "ex_f \<noteq> ex_h" by (simp add: ex_f_def ex_h_def)
  have 1: "flatten_equations ex_eqs_whitelist =
     Inr [\<lparr>lhs = Fn ex_f, rhs = Num 0\<rparr>, \<lparr>lhs = Fn ex_h, rhs = Num 0\<rparr>]"
    using ne by (simp add: flatten_equations_def ex_eqs_whitelist_def tuple_of_set_def)
  have 2: "setup_bcs [\<lparr>lhs = Fn ex_f, rhs = Num 0\<rparr>, \<lparr>lhs = Fn ex_h, rhs = Num 0\<rparr>]
       (flatten_functions (Some [ScalarFunction ex_f])) =
     Inr [\<lparr>bc_eq = \<lparr>lhs = Fn ex_f, rhs = Num 0\<rparr>, bc_funcs = [ex_f], bc_dims = None\<rparr>,
          \<lparr>bc_eq = \<lparr>lhs = Fn ex_h, rhs = Num 0\<rparr>, bc_funcs = [], bc_dims = None\<rparr>]"
    using ne by (simp add: flatten_functions_def BoundaryCondition_init_def parse_rhs_def
        get_functions_def get_derivative_dimensions_def tuple_of_set_def Let_def)
  from empty_field_set_raises_IndexError [OF 1 2]
  have "BoundaryConditions_init ex_eqs_whitelist (Some [ScalarFunction ex_f]) = Inl IndexError"
    by simp
  with 1 2 show ?thesis by blast
qed

subsection \<open>Conditions connected through shared fields\<close>

lemma shares_field_reaches:
  assumes "(a, b) \<in> (shares_field bcs)\<^sup>*" "bc_funcs a \<noteq> []" "a \<in> set bcs"
  shows "(hd (bc_funcs a), hd (bc_funcs b)) \<in> (field_edges bcs)\<^sup>* \<and> b \<in> set bcs \<and> bc_funcs b \<noteq> []"
  using assms(1)
proof (induction rule: rtrancl_induct)
  case base
  show ?case using assms(2,3) by simp
next
  case (step b c)
  from step.hyps(2) obtain f where f: "f \<in> set (bc_funcs b)" "f \<in> set (bc_funcs c)"
    and c: "c \<in> set bcs" and b: "b \<in> set bcs"
    by (auto simp: shares_field_def)
  have "(hd (bc_funcs b), f) \<in> (field_edges bcs)\<^sup>*" by (rule hd_reaches [OF b f(1)])
  moreover have "(f, hd (bc_funcs c)) \<in> (field_edges bcs)\<^sup>*"
    using hd_reaches [OF c f(2)] by (rule sym_rtrancl_field_edges)
  ultimately have "(hd (bc_funcs b), hd (bc_funcs c)) \<in> (field_edges bcs)\<^sup>*"
    by (rule rtrancl_trans)
  with step.IH have "(hd (bc_funcs a), hd (bc_funcs c)) \<in> (field_edges bcs)\<^sup>*"
    by (auto intro: rtrancl_trans)
  moreover have "bc_funcs c \<noteq> []" using f(2) by auto
  ultimately show ?case using c by simp
qed

lemma reaches_shares_field:
  assumes "(u, w) \<in> (field_edges bcs)\<^sup>*"
    and "a \<in> set bcs" "u \<in> set (bc_funcs a)"
    and "d \<in> set bcs" "w \<in> set (bc_funcs d)"
  shows "(a, d) \<in> (shares_field bcs)\<^sup>*"
  using assms(1,4,5)
proof (induction arbitrary: d rule: rtrancl_induct)
  case base
  with assms(2,3) have "(a, d) \<in> shares_field bcs"
    by (auto simp: shares_field_def)
  then show ?case by simp
next
  case (step y z)
  from field_edge_condition [OF step.hyps(2)] obtain c where
    c: "c \<in> set bcs" "y \<in> set (bc_funcs c)" "z \<in> set (bc_funcs c)" by blast
  have "(a, c) \<in> (shares_field bcs)\<^sup>*" by (rule step.IH [OF c(1,2)])
  moreover have "(c, d) \<in> shares_field bcs"
    using c(1,3) step.prems by (auto simp: shares_field_def)
  ultimately show ?case by (rule rtrancl_into_rtrancl)
qed

lemma same_component_iff_shares:
  assumes "a \<in> set bcs" "b \<in> set bcs" "bc_funcs a \<noteq> []" "bc_funcs b \<noteq> []"
  shows "(hd (bc_funcs a), hd (bc_funcs b)) \<in> (field_edges bcs)\<^sup>* \<longleftrightarrow>
         (a, b) \<in> (shares_field bcs)\<^sup>*"
proof
  assume "(hd (bc_funcs a), hd (bc_funcs b)) \<in> (field_edges bcs)\<^sup>*"
  then show "(a, b) \<in> (shares_field bcs)\<^sup>*"
    using assms by (intro reaches_shares_field [where u = "hd (bc_funcs a)" and w = "hd (bc_funcs b)"]) simp_all
next
  assume "(a, b) \<in> (shares_field bcs)\<^sup>*"
  from shares_field_reaches [OF this assms(3,1)]
  show "(hd (bc_funcs a), hd (bc_funcs b)) \<in> (field_edges bcs)\<^sup>*" by simp
qed

section \<open>Grouping: the connected components of the field graph\<close>

lemma ex_group_bcs:
  "map_sum id fst (group_bcs ex_bcs) =
     Inr [\<lparr>cg_conds = [\<lparr>bc_eq = ex_eq1, bc_funcs = [ex_f, ex_h], bc_dims = None\<rparr>,
                        \<lparr>bc_eq = ex_eq3, bc_funcs = [ex_p, ex_h], bc_dims = None\<rparr>],
           cg_funcs = [ex_f, ex_h, ex_p]\<rparr>,
          \<lparr>cg_conds = [\<lparr>bc_eq = ex_eq2, bc_funcs = [ex_k], bc_dims = None\<rparr>],
           cg_funcs = [ex_k]\<rparr>]"
  by code_simp

text \<open>
  C2. When every condition has at least one selected field, the grouping returns groups
  whose field sets are exactly the connected components of the field graph, one group per
  component. The conditions of a group are the conditions, in order, whose fields meet the
  fields of the group. Two conditions are in one group exactly when a chain of conditions,
  each sharing a field with the next, joins them.
\<close>

theorem group_bcs_connected_components:
  assumes "\<forall>bc \<in> set bcs. bc_funcs bc \<noteq> []"
  shows "\<exists>gs m. group_bcs bcs = Inr (gs, m) \<and>
           set (map (\<lambda>g. set (cg_funcs g)) gs) = field_components bcs \<and>
           distinct (map (\<lambda>g. set (cg_funcs g)) gs) \<and>
           (\<forall>g \<in> set gs. cg_conds g =
              filter (\<lambda>bc. set (bc_funcs bc) \<inter> set (cg_funcs g) \<noteq> {}) bcs) \<and>
           (\<forall>a \<in> set bcs. \<forall>b \<in> set bcs.
              (\<exists>g \<in> set gs. a \<in> set (cg_conds g) \<and> b \<in> set (cg_conds g)) \<longleftrightarrow>
              (a, b) \<in> (shares_field bcs)\<^sup>*)"
proof -
  let ?comps = "connected_components (build_graph bcs)"
  let ?mk = "\<lambda>grp. \<lparr>cg_conds = filter (\<lambda>bc. hd (bc_funcs bc) \<in> set grp) bcs, cg_funcs = grp\<rparr>"
  let ?R = "(field_edges bcs)\<^sup>*"
  from group_bcs_nonempty [OF assms] obtain m where
    res: "group_bcs bcs = Inr (map ?mk ?comps, m)" by blast
  have fs: "map (\<lambda>g. set (cg_funcs g)) (map ?mk ?comps) = map set ?comps"
    by (simp add: comp_def)
  have comp_cases: "\<exists>v. v \<in> field_nodes bcs \<and> set c = ?R `` {v}" if "c \<in> set ?comps" for c
  proof -
    from that have "set c \<in> set (map set ?comps)" by simp
    then show ?thesis unfolding build_graph_components(1) field_components_def by auto
  qed
  have A: "set (map (\<lambda>g. set (cg_funcs g)) (map ?mk ?comps)) = field_components bcs"
    unfolding fs by (rule build_graph_components(1))
  have B: "distinct (map (\<lambda>g. set (cg_funcs g)) (map ?mk ?comps))"
    unfolding fs by (rule build_graph_components(2))
  have sel: "filter (\<lambda>bc. hd (bc_funcs bc) \<in> set c) bcs =
             filter (\<lambda>bc. set (bc_funcs bc) \<inter> set c \<noteq> {}) bcs" if "c \<in> set ?comps" for c
  proof -
    from comp_cases [OF that] obtain v where v: "set c = ?R `` {v}" by blast
    show ?thesis
      unfolding v using assms by (intro filter_cong refl hd_in_component_iff) auto
  qed
  have C: "\<forall>g \<in> set (map ?mk ?comps). cg_conds g =
              filter (\<lambda>bc. set (bc_funcs bc) \<inter> set (cg_funcs g) \<noteq> {}) bcs"
    using sel by auto
  have D: "(\<exists>g \<in> set (map ?mk ?comps). a \<in> set (cg_conds g) \<and> b \<in> set (cg_conds g)) \<longleftrightarrow>
           (a, b) \<in> (shares_field bcs)\<^sup>*" if a: "a \<in> set bcs" and b: "b \<in> set bcs" for a b
  proof -
    from a b assms have na: "bc_funcs a \<noteq> []" and nb: "bc_funcs b \<noteq> []" by auto
    have "(\<exists>g \<in> set (map ?mk ?comps). a \<in> set (cg_conds g) \<and> b \<in> set (cg_conds g)) \<longleftrightarrow>
          (\<exists>c \<in> set ?comps. hd (bc_funcs a) \<in> set c \<and> hd (bc_funcs b) \<in> set c)"
      using a b by auto
    also have "\<dots> \<longleftrightarrow> (hd (bc_funcs a), hd (bc_funcs b)) \<in> ?R"
    proof
      assume "\<exists>c \<in> set ?comps. hd (bc_funcs a) \<in> set c \<and> hd (bc_funcs b) \<in> set c"
      then obtain c where c: "c \<in> set ?comps" "hd (bc_funcs a) \<in> set c" "hd (bc_funcs b) \<in> set c"
        by blast
      from comp_cases [OF c(1)] obtain v where v: "set c = ?R `` {v}" by blast
      from c(2) v have "(v, hd (bc_funcs a)) \<in> ?R" by simp
      then have "(hd (bc_funcs a), v) \<in> ?R" by (rule sym_rtrancl_field_edges)
      moreover from c(3) v have "(v, hd (bc_funcs b)) \<in> ?R" by simp
      ultimately show "(hd (bc_funcs a), hd (bc_funcs b)) \<in> ?R" by (rule rtrancl_trans)
    next
      assume r: "(hd (bc_funcs a), hd (bc_funcs b)) \<in> ?R"
      have "hd (bc_funcs a) \<in> set (bc_funcs a)" using na by simp
      then have "hd (bc_funcs a) \<in> field_nodes bcs"
        using a unfolding field_nodes_def by blast
      then have "?R `` {hd (bc_funcs a)} \<in> set (map set ?comps)"
        unfolding build_graph_components(1) field_components_def by blast
      then obtain c where c: "c \<in> set ?comps" "set c = ?R `` {hd (bc_funcs a)}" by auto
      with r show "\<exists>c \<in> set ?comps. hd (bc_funcs a) \<in> set c \<and> hd (bc_funcs b) \<in> set c"
        by auto
    qed
    also have "\<dots> \<longleftrightarrow> (a, b) \<in> (shares_field bcs)\<^sup>*"
      by (rule same_component_iff_shares [OF a b na nb])
    finally show ?thesis .
  qed
  show ?thesis
    using res A B C D by blast
qed

theorem group_bcs_connected_components_witness:
  "map_sum id fst (group_bcs ex_bcs) =
     Inr [\<lparr>cg_conds = [\<lparr>bc_eq = ex_eq1, bc_funcs = [ex_f, ex_h], bc_dims = None\<rparr>,
                        \<lparr>bc_eq = ex_eq3, bc_funcs = [ex_p, ex_h], bc_dims = None\<rparr>],
           cg_funcs = [ex_f, ex_h, ex_p]\<rparr>,
          \<lparr>cg_conds = [\<lparr>bc_eq = ex_eq2, bc_funcs = [ex_k], bc_dims = None\<rparr>],
           cg_funcs = [ex_k]\<rparr>] \<and>
   field_components ex_bcs = {{ex_f, ex_h, ex_p}, {ex_k}} \<and>
   (\<lparr>bc_eq = ex_eq1, bc_funcs = [ex_f, ex_h], bc_dims = None\<rparr>,
    \<lparr>bc_eq = ex_eq3, bc_funcs = [ex_p, ex_h], bc_dims = None\<rparr>) \<in> (shares_field ex_bcs)\<^sup>*"
proof -
  let ?b1 = "\<lparr>bc_eq = ex_eq1, bc_funcs = [ex_f, ex_h], bc_dims = None\<rparr>"
  let ?b2 = "\<lparr>bc_eq = ex_eq2, bc_funcs = [ex_k], bc_dims = None\<rparr>"
  let ?b3 = "\<lparr>bc_eq = ex_eq3, bc_funcs = [ex_p, ex_h], bc_dims = None\<rparr>"
  let ?gs = "[\<lparr>cg_conds = [?b1, ?b3], cg_funcs = [ex_f, ex_h, ex_p]\<rparr>,
              \<lparr>cg_conds = [?b2], cg_funcs = [ex_k]\<rparr>]"
  have ne: "\<forall>bc \<in> set ex_bcs. bc_funcs bc \<noteq> []"
    by (simp add: ex_bcs_def)
  from group_bcs_connected_components [OF ne] obtain gs m where
    r: "group_bcs ex_bcs = Inr (gs, m)"
    and c: "set (map (\<lambda>g. set (cg_funcs g)) gs) = field_components ex_bcs"
    and s: "\<forall>a \<in> set ex_bcs. \<forall>b \<in> set ex_bcs.
              (\<exists>g \<in> set gs. a \<in> set (cg_conds g) \<and> b \<in> set (cg_conds g)) \<longleftrightarrow>
              (a, b) \<in> (shares_field ex_bcs)\<^sup>*"
    by blast
  from r ex_group_bcs have gs: "gs = ?gs" by simp
  have 1: "field_components ex_bcs = {{ex_f, ex_h, ex_p}, {ex_k}}"
    using c unfolding gs by simp
  have "?b1 \<in> set ex_bcs" "?b3 \<in> set ex_bcs" by (simp_all add: ex_bcs_def)
  with s have "(\<exists>g \<in> set gs. ?b1 \<in> set (cg_conds g) \<and> ?b3 \<in> set (cg_conds g)) \<longleftrightarrow>
              (?b1, ?b3) \<in> (shares_field ex_bcs)\<^sup>*" by blast
  moreover have "\<exists>g \<in> set gs. ?b1 \<in> set (cg_conds g) \<and> ?b3 \<in> set (cg_conds g)"
    unfolding gs by simp
  ultimately have 2: "(?b1, ?b3) \<in> (shares_field ex_bcs)\<^sup>*" by blast
  from ex_group_bcs 1 2 show ?thesis by blast
qed

section \<open>Grouping depends on the field sets only\<close>

lemma field_nodes_image: "field_nodes bcs = \<Union> ((\<lambda>b. set (bc_funcs b)) ` set bcs)"
  by (simp add: field_nodes_def)

lemma field_edges_rtrancl:
  "(field_edges bcs)\<^sup>* =
     {(u, w). \<exists>F \<in> (\<lambda>b. set (bc_funcs b)) ` set bcs. u \<in> F \<and> w \<in> F}\<^sup>*"
proof (rule rtrancl_subset [symmetric])
  show "field_edges bcs \<subseteq> {(u, w). \<exists>F \<in> (\<lambda>b. set (bc_funcs b)) ` set bcs. u \<in> F \<and> w \<in> F}"
    using field_edge_condition by fastforce
  show "{(u, w). \<exists>F \<in> (\<lambda>b. set (bc_funcs b)) ` set bcs. u \<in> F \<and> w \<in> F} \<subseteq> (field_edges bcs)\<^sup>*"
    using same_condition_reaches by fastforce
qed

lemma field_components_cong:
  assumes "(\<lambda>b. set (bc_funcs b)) ` set bcs = (\<lambda>b. set (bc_funcs b)) ` set bcs'"
  shows "field_components bcs = field_components bcs'"
  unfolding field_components_def field_edges_rtrancl field_nodes_image assms ..

lemma group_field_sets_group_bcs:
  "group_field_sets (group_bcs bcs) =
     (if {} \<in> (\<lambda>b. set (bc_funcs b)) ` set bcs \<and>
         (\<exists>F \<in> (\<lambda>b. set (bc_funcs b)) ` set bcs. F \<noteq> {})
      then None else Some (field_components bcs))"
proof -
  consider (err) "\<exists>bc \<in> set bcs. bc_funcs bc = []" "\<exists>bc \<in> set bcs. bc_funcs bc \<noteq> []"
    | (none) "\<forall>bc \<in> set bcs. bc_funcs bc = []"
    | (all) "\<forall>bc \<in> set bcs. bc_funcs bc \<noteq> []"
    by blast
  then show ?thesis
  proof cases
    case err
    from group_bcs_error [OF err] have "group_field_sets (group_bcs bcs) = None"
      by (simp add: group_field_sets_def)
    moreover from err have "{} \<in> (\<lambda>b. set (bc_funcs b)) ` set bcs"
      and "\<exists>F \<in> (\<lambda>b. set (bc_funcs b)) ` set bcs. F \<noteq> {}"
      by force+
    ultimately show ?thesis by simp
  next
    case none
    from group_bcs_no_fields [OF none] have "group_field_sets (group_bcs bcs) = Some {}"
      by (simp add: group_field_sets_def)
    moreover from none have "field_nodes bcs = {}" by (simp add: field_nodes_def)
    then have "field_components bcs = {}" by (simp add: field_components_def)
    moreover from none have "\<not> (\<exists>F \<in> (\<lambda>b. set (bc_funcs b)) ` set bcs. F \<noteq> {})"
      by simp
    ultimately show ?thesis by simp
  next
    case all
    from group_bcs_nonempty [OF all] obtain m where
      "group_bcs bcs = Inr (map (\<lambda>grp. \<lparr>cg_conds = filter (\<lambda>bc. hd (bc_funcs bc) \<in> set grp) bcs,
                      cg_funcs = grp\<rparr>) (connected_components (build_graph bcs)), m)" by blast
    then have "group_field_sets (group_bcs bcs) =
        Some (set (map set (connected_components (build_graph bcs))))"
      by (simp add: group_field_sets_def image_image)
    then have "group_field_sets (group_bcs bcs) = Some (field_components bcs)"
      by (simp only: build_graph_components(1))
    moreover from all have "{} \<notin> (\<lambda>b. set (bc_funcs b)) ` set bcs" by force
    ultimately show ?thesis by simp
  qed
qed

lemma group_field_sets_cong:
  assumes "(\<lambda>b. set (bc_funcs b)) ` set bcs = (\<lambda>b. set (bc_funcs b)) ` set bcs'"
  shows "group_field_sets (group_bcs bcs) = group_field_sets (group_bcs bcs')"
  unfolding group_field_sets_group_bcs field_components_cong [OF assms] assms ..

lemma group_bcs_error_class:
  "group_bcs bcs = Inl e \<Longrightarrow> e = IndexError \<and> group_field_sets (group_bcs bcs) = None"
proof -
  assume e: "group_bcs bcs = Inl e"
  consider (err) "\<exists>bc \<in> set bcs. bc_funcs bc = []" "\<exists>bc \<in> set bcs. bc_funcs bc \<noteq> []"
    | (none) "\<forall>bc \<in> set bcs. bc_funcs bc = []"
    | (all) "\<forall>bc \<in> set bcs. bc_funcs bc \<noteq> []"
    by blast
  then show ?thesis
  proof cases
    case err
    from group_bcs_error [OF err] e show ?thesis by (simp add: group_field_sets_def)
  next
    case none
    from group_bcs_no_fields [OF none] e show ?thesis by simp
  next
    case all
    from group_bcs_nonempty [OF all] e show ?thesis by auto
  qed
qed

section \<open>The constructor and the order of the equations\<close>

lemma flatten_loop_None:
  "\<exists>eq \<in> set eqs. flatten_Eq eq = None \<Longrightarrow> flatten_loop eqs acc = Inl TypeError"
proof (induction eqs arbitrary: acc)
  case Nil
  then show ?case by simp
next
  case (Cons eq eqs)
  then show ?case by (cases "flatten_Eq eq") auto
qed

lemma flatten_loop_Some:
  "\<forall>eq \<in> set eqs. flatten_Eq eq \<noteq> None \<Longrightarrow>
   flatten_loop eqs acc = Inr (acc @ concat (map (\<lambda>eq. the (flatten_Eq eq)) eqs))"
proof (induction eqs arbitrary: acc)
  case Nil
  then show ?case by simp
next
  case (Cons eq eqs)
  then show ?case by (cases "flatten_Eq eq") auto
qed

lemma flatten_equations_cases:
  "(if \<exists>eq \<in> set eqs. flatten_Eq eq = None
    then flatten_equations eqs = Inl TypeError
    else \<exists>es. flatten_equations eqs = Inr es \<and>
              set es = (\<Union>eq \<in> set eqs. set (the (flatten_Eq eq))))"
proof (cases "\<exists>eq \<in> set eqs. flatten_Eq eq = None")
  case True
  then show ?thesis by (simp add: flatten_equations_def flatten_loop_None)
next
  case False
  then have "\<forall>eq \<in> set eqs. flatten_Eq eq \<noteq> None" by simp
  from flatten_loop_Some [OF this, of "[]"] False show ?thesis
    by (simp add: flatten_equations_def tuple_of_set_def)
qed

lemma BoundaryCondition_init_cases:
  "BoundaryCondition_init eq funcs = Inl NotImplementedError \<or>
   (\<exists>ds. BoundaryCondition_init eq funcs =
      Inr \<lparr>bc_eq = eq, bc_funcs = get_functions eq funcs, bc_dims = ds\<rparr>)"
proof (cases "rhs eq \<noteq> Num 0")
  case True
  then show ?thesis by (simp add: BoundaryCondition_init_def parse_rhs_def)
next
  case False
  show ?thesis
  proof (cases "\<forall>d \<in> set (find_derivatives (lhs eq)). \<exists>f. fst d = Fn f \<and> f \<in> set (get_functions eq funcs)")
    case True
    from get_derivative_dimensions_ok [OF True] False show ?thesis
      by (auto simp: BoundaryCondition_init_def parse_rhs_def Let_def)
  next
    case F: False
    then have "\<exists>d \<in> set (find_derivatives (lhs eq)). \<not> (\<exists>f. fst d = Fn f \<and> f \<in> set (get_functions eq funcs))"
      by simp
    from get_derivative_dimensions_bad [OF this] False show ?thesis
      by (simp add: BoundaryCondition_init_def parse_rhs_def Let_def)
  qed
qed

lemma setup_bcs_cases:
  "(if \<exists>eq \<in> set es. BoundaryCondition_init eq funcs = Inl NotImplementedError
    then setup_bcs es funcs = Inl NotImplementedError
    else \<exists>bcs. setup_bcs es funcs = Inr bcs \<and>
               map bc_funcs bcs = map (\<lambda>eq. get_functions eq funcs) es)"
proof (induction es)
  case Nil
  then show ?case by simp
next
  case (Cons eq es)
  from BoundaryCondition_init_cases [of eq funcs] show ?case
  proof
    assume "BoundaryCondition_init eq funcs = Inl NotImplementedError"
    then show ?thesis by simp
  next
    assume "\<exists>ds. BoundaryCondition_init eq funcs =
      Inr \<lparr>bc_eq = eq, bc_funcs = get_functions eq funcs, bc_dims = ds\<rparr>"
    then obtain ds where ds: "BoundaryCondition_init eq funcs =
      Inr \<lparr>bc_eq = eq, bc_funcs = get_functions eq funcs, bc_dims = ds\<rparr>" by blast
    show ?thesis
    proof (cases "\<exists>eq \<in> set es. BoundaryCondition_init eq funcs = Inl NotImplementedError")
      case True
      with Cons.IH ds show ?thesis by simp
    next
      case False
      with Cons.IH obtain bcs where "setup_bcs es funcs = Inr bcs"
        "map bc_funcs bcs = map (\<lambda>eq. get_functions eq funcs) es" by auto
      with ds False show ?thesis by simp
    qed
  qed
qed

lemma group_bcs_Inl_iff:
  "group_bcs bcs = Inl e \<longleftrightarrow> e = IndexError \<and> group_field_sets (group_bcs bcs) = None"
proof
  assume "group_bcs bcs = Inl e"
  then show "e = IndexError \<and> group_field_sets (group_bcs bcs) = None"
    by (rule group_bcs_error_class)
next
  assume a: "e = IndexError \<and> group_field_sets (group_bcs bcs) = None"
  then obtain e' where e': "group_bcs bcs = Inl e'"
    by (cases "group_bcs bcs") (auto simp: group_field_sets_def)
  from group_bcs_error_class [OF e'] e' a show "group_bcs bcs = Inl e" by simp
qed

lemma flatten_equations_bad:
  "\<exists>eq \<in> set eqs. flatten_Eq eq = None \<Longrightarrow> flatten_equations eqs = Inl TypeError"
  using flatten_equations_cases [of eqs] by (simp only: if_True)

lemma flatten_equations_ok:
  "\<not> (\<exists>eq \<in> set eqs. flatten_Eq eq = None) \<Longrightarrow>
   \<exists>es. flatten_equations eqs = Inr es \<and> set es = (\<Union>eq \<in> set eqs. set (the (flatten_Eq eq)))"
  using flatten_equations_cases [of eqs] by (simp only: if_False)

lemma setup_bcs_bad:
  "\<exists>eq \<in> set es. BoundaryCondition_init eq funcs = Inl NotImplementedError \<Longrightarrow>
   setup_bcs es funcs = Inl NotImplementedError"
  using setup_bcs_cases [of es funcs] by (simp only: if_True)

lemma setup_bcs_ok:
  "\<not> (\<exists>eq \<in> set es. BoundaryCondition_init eq funcs = Inl NotImplementedError) \<Longrightarrow>
   \<exists>bcs. setup_bcs es funcs = Inr bcs \<and> map bc_funcs bcs = map (\<lambda>eq. get_functions eq funcs) es"
  using setup_bcs_cases [of es funcs] by (simp only: if_False)

lemma constructed_groups_set:
  assumes "set eqs = set eqs'"
  shows "group_field_sets (constructed_groups eqs funcs) =
           group_field_sets (constructed_groups eqs' funcs) \<and>
         (\<forall>e. constructed_groups eqs funcs = Inl e \<longleftrightarrow> constructed_groups eqs' funcs = Inl e)"
proof (cases "\<exists>eq \<in> set eqs. flatten_Eq eq = None")
  case True
  then have "flatten_equations eqs = Inl TypeError"
    by (rule flatten_equations_bad)
  moreover from True assms have "\<exists>eq \<in> set eqs'. flatten_Eq eq = None" by simp
  then have "flatten_equations eqs' = Inl TypeError"
    by (rule flatten_equations_bad)
  ultimately show ?thesis by (simp add: constructed_groups_def)
next
  case False
  from flatten_equations_ok [OF False] obtain es where es: "flatten_equations eqs = Inr es"
    "set es = (\<Union>eq \<in> set eqs. set (the (flatten_Eq eq)))"
    by blast
  from False assms have "\<not> (\<exists>eq \<in> set eqs'. flatten_Eq eq = None)" by simp
  from flatten_equations_ok [OF this] obtain es' where es': "flatten_equations eqs' = Inr es'"
    "set es' = (\<Union>eq \<in> set eqs'. set (the (flatten_Eq eq)))"
    by blast
  from es(2) es'(2) assms have same: "set es = set es'" by simp
  let ?fs = "flatten_functions funcs"
  show ?thesis
  proof (cases "\<exists>eq \<in> set es. BoundaryCondition_init eq ?fs = Inl NotImplementedError")
    case True
    then have "setup_bcs es ?fs = Inl NotImplementedError"
      by (rule setup_bcs_bad)
    moreover from True same
    have "\<exists>eq \<in> set es'. BoundaryCondition_init eq ?fs = Inl NotImplementedError" by simp
    then have "setup_bcs es' ?fs = Inl NotImplementedError"
      by (rule setup_bcs_bad)
    ultimately show ?thesis using es(1) es'(1) by (simp add: constructed_groups_def)
  next
    case False
    from setup_bcs_ok [OF False] obtain bcs where bcs: "setup_bcs es ?fs = Inr bcs"
      "map bc_funcs bcs = map (\<lambda>eq. get_functions eq ?fs) es"
      by blast
    from False same
    have "\<not> (\<exists>eq \<in> set es'. BoundaryCondition_init eq ?fs = Inl NotImplementedError)" by simp
    from setup_bcs_ok [OF this] obtain bcs' where bcs': "setup_bcs es' ?fs = Inr bcs'"
      "map bc_funcs bcs' = map (\<lambda>eq. get_functions eq ?fs) es'"
      by blast
    have "(\<lambda>b. set (bc_funcs b)) ` set bcs = set ` set (map bc_funcs bcs)"
      by (simp add: image_image)
    also have "\<dots> = set ` set (map bc_funcs bcs')"
      unfolding bcs(2) bcs'(2) using same by simp
    also have "\<dots> = (\<lambda>b. set (bc_funcs b)) ` set bcs'"
      by (simp add: image_image)
    finally have "group_field_sets (group_bcs bcs) = group_field_sets (group_bcs bcs')"
      by (rule group_field_sets_cong)
    moreover have "constructed_groups eqs funcs = group_bcs bcs"
      using es(1) bcs(1) by (simp add: constructed_groups_def)
    moreover have "constructed_groups eqs' funcs = group_bcs bcs'"
      using es'(1) bcs'(1) by (simp add: constructed_groups_def)
    ultimately show ?thesis by (simp add: group_bcs_Inl_iff)
  qed
qed

lemma BoundaryConditions_init_Inl:
  "BoundaryConditions_init eqs funcs = Inl e \<longleftrightarrow> constructed_groups eqs funcs = Inl e"
  by (auto simp: BoundaryConditions_init_def constructed_groups_def Let_def split: sum.splits)

lemma ex_flatten_equations: "flatten_equations ex_eqs = Inr [ex_eq1, ex_eq2, ex_eq3]"
  by code_simp

lemma ex_setup_bcs: "setup_bcs [ex_eq1, ex_eq2, ex_eq3] None = Inr ex_bcs"
  by code_simp

lemma ex_flatten_equations_permuted:
  "flatten_equations ex_eqs_permuted = Inr [ex_eq3, ex_eq1, ex_eq2]"
  by code_simp

lemma ex_setup_bcs_permuted:
  "setup_bcs [ex_eq3, ex_eq1, ex_eq2] None =
     Inr [\<lparr>bc_eq = ex_eq3, bc_funcs = [ex_p, ex_h], bc_dims = None\<rparr>,
          \<lparr>bc_eq = ex_eq1, bc_funcs = [ex_f, ex_h], bc_dims = None\<rparr>,
          \<lparr>bc_eq = ex_eq2, bc_funcs = [ex_k], bc_dims = None\<rparr>]"
  by code_simp

lemma ex_group_bcs_permuted:
  "map_sum id (\<lambda>r. map cg_funcs (fst r))
     (group_bcs [\<lparr>bc_eq = ex_eq3, bc_funcs = [ex_p, ex_h], bc_dims = None\<rparr>,
                 \<lparr>bc_eq = ex_eq1, bc_funcs = [ex_f, ex_h], bc_dims = None\<rparr>,
                 \<lparr>bc_eq = ex_eq2, bc_funcs = [ex_k], bc_dims = None\<rparr>]) =
     Inr [[ex_p, ex_h, ex_f], [ex_k]]"
  by code_simp

lemma ex_constructed_groups:
  "map_sum id (\<lambda>r. map cg_funcs (fst r)) (constructed_groups ex_eqs None) =
     Inr [[ex_f, ex_h, ex_p], [ex_k]]"
proof -
  have "constructed_groups ex_eqs None = group_bcs ex_bcs"
    unfolding constructed_groups_def flatten_functions_def ex_flatten_equations
    by (simp only: option.case sum.case ex_setup_bcs)
  moreover have "map_sum id (\<lambda>r. map cg_funcs (fst r)) (group_bcs ex_bcs) =
      map_sum id (map cg_funcs) (map_sum id fst (group_bcs ex_bcs))"
    by (cases "group_bcs ex_bcs") simp_all
  ultimately show ?thesis by (simp add: ex_group_bcs)
qed

lemma ex_constructed_groups_permuted:
  "map_sum id (\<lambda>r. map cg_funcs (fst r)) (constructed_groups ex_eqs_permuted None) =
     Inr [[ex_p, ex_h, ex_f], [ex_k]]"
  unfolding constructed_groups_def flatten_functions_def ex_flatten_equations_permuted
  by (simp only: option.case sum.case ex_setup_bcs_permuted ex_group_bcs_permuted)

text \<open>
  C3. For two lists holding the same equations in different orders, the constructor
  computes the same groups, as sets of field sets, or fails for both with the same
  exception. The groups computed from a list of conditions do not change when the fields
  of a condition are listed in another order, which is what choosing another root of the
  star changes, nor when the conditions are permuted.
\<close>

theorem grouping_order_independent:
  assumes "mset eqs = mset eqs'"
  shows "group_field_sets (constructed_groups eqs funcs) =
           group_field_sets (constructed_groups eqs' funcs) \<and>
         (\<forall>e. BoundaryConditions_init eqs funcs = Inl e \<longleftrightarrow>
              BoundaryConditions_init eqs' funcs = Inl e) \<and>
         (\<forall>bcs bcs'. map (\<lambda>b. set (bc_funcs b)) bcs = map (\<lambda>b. set (bc_funcs b)) bcs' \<longrightarrow>
            group_field_sets (group_bcs bcs) = group_field_sets (group_bcs bcs')) \<and>
         (\<forall>bcs bcs'. mset bcs = mset bcs' \<longrightarrow>
            group_field_sets (group_bcs bcs) = group_field_sets (group_bcs bcs'))"
proof -
  from assms have "set eqs = set eqs'" by (rule mset_eq_setD)
  note A = constructed_groups_set [OF this, of funcs]
  have B: "group_field_sets (group_bcs bcs) = group_field_sets (group_bcs bcs')"
    if "map (\<lambda>b. set (bc_funcs b)) bcs = map (\<lambda>b. set (bc_funcs b)) bcs'" for bcs bcs'
  proof -
    from that have "set (map (\<lambda>b. set (bc_funcs b)) bcs) = set (map (\<lambda>b. set (bc_funcs b)) bcs')"
      by simp
    then have "(\<lambda>b. set (bc_funcs b)) ` set bcs = (\<lambda>b. set (bc_funcs b)) ` set bcs'"
      by simp
    then show ?thesis by (rule group_field_sets_cong)
  qed
  have C: "group_field_sets (group_bcs bcs) = group_field_sets (group_bcs bcs')"
    if "mset bcs = mset bcs'" for bcs bcs'
  proof -
    from that have "set bcs = set bcs'" by (rule mset_eq_setD)
    then have "(\<lambda>b. set (bc_funcs b)) ` set bcs = (\<lambda>b. set (bc_funcs b)) ` set bcs'"
      by simp
    then show ?thesis by (rule group_field_sets_cong)
  qed
  have D: "BoundaryConditions_init eqs funcs = Inl e \<longleftrightarrow>
           BoundaryConditions_init eqs' funcs = Inl e" for e
    unfolding BoundaryConditions_init_Inl using A by blast
  show ?thesis
  proof (intro conjI allI impI)
    show "group_field_sets (constructed_groups eqs funcs) =
          group_field_sets (constructed_groups eqs' funcs)"
      using A by (rule conjunct1)
  qed (rule D, erule B, erule C)
qed

theorem grouping_order_independent_witness:
  "mset ex_eqs = mset ex_eqs_permuted \<and>
   map_sum id (\<lambda>r. map cg_funcs (fst r)) (constructed_groups ex_eqs None) =
     Inr [[ex_f, ex_h, ex_p], [ex_k]] \<and>
   map_sum id (\<lambda>r. map cg_funcs (fst r)) (constructed_groups ex_eqs_permuted None) =
     Inr [[ex_p, ex_h, ex_f], [ex_k]] \<and>
   group_field_sets (constructed_groups ex_eqs None) = Some {{ex_f, ex_h, ex_p}, {ex_k}} \<and>
   group_field_sets (constructed_groups ex_eqs_permuted None) = Some {{ex_f, ex_h, ex_p}, {ex_k}}"
proof -
  have p: "mset ex_eqs = mset ex_eqs_permuted"
    by (simp add: ex_eqs_def ex_eqs_permuted_def)
  from ex_constructed_groups obtain gs m where
    "constructed_groups ex_eqs None = Inr (gs, m)" "map cg_funcs gs = [[ex_f, ex_h, ex_p], [ex_k]]"
    by (cases "constructed_groups ex_eqs None") auto
  note gs = this
  have "(\<lambda>g. set (cg_funcs g)) ` set gs = set (map set (map cg_funcs gs))"
    by (simp add: image_image)
  with gs(1) have "group_field_sets (constructed_groups ex_eqs None) =
      Some (set (map set (map cg_funcs gs)))"
    by (simp add: group_field_sets_def)
  then have 1: "group_field_sets (constructed_groups ex_eqs None) = Some {{ex_f, ex_h, ex_p}, {ex_k}}"
    unfolding \<open>map cg_funcs gs = [[ex_f, ex_h, ex_p], [ex_k]]\<close> by simp
  from grouping_order_independent [OF p, of None, THEN conjunct1] 1
  have 2: "group_field_sets (constructed_groups ex_eqs_permuted None) =
      Some {{ex_f, ex_h, ex_p}, {ex_k}}"
    by simp
  from p ex_constructed_groups ex_constructed_groups_permuted 1 2 show ?thesis
    by (intro conjI)
qed

section \<open>The field-to-group dictionary\<close>

lemma fold_upd_dom: "dom (fold (\<lambda>f m. m(f \<mapsto> g)) fs m0) = dom m0 \<union> set fs"
  by (induction fs arbitrary: m0) auto

lemma fold_upd_lookup:
  "fold (\<lambda>f m. m(f \<mapsto> g)) fs m0 x = (if x \<in> set fs then Some g else m0 x)"
  by (induction fs arbitrary: m0) auto

lemma group_loop_f_map:
  assumes "group_loop bcs groups st = Inr (gs, m)"
    and "\<forall>f g. snd st f = Some g \<longrightarrow> g \<in> set (fst st) \<and> f \<in> set (cg_funcs g)"
  shows "dom m = dom (snd st) \<union> \<Union> (set ` set groups) \<and>
         (\<forall>f g. m f = Some g \<longrightarrow> g \<in> set gs \<and> f \<in> set (cg_funcs g))"
  using assms
proof (induction groups arbitrary: st)
  case Nil
  then show ?case by auto
next
  case (Cons grp groups)
  from Cons.prems(1) obtain conds where
    sel: "select_conditions bcs grp = Inr conds"
    by (cases "select_conditions bcs grp") auto
  let ?ng = "\<lparr>cg_conds = conds, cg_funcs = grp\<rparr>"
  let ?st = "(fst st @ [?ng], fold (\<lambda>f m. m(f \<mapsto> ?ng)) grp (snd st))"
  from Cons.prems(1) sel have run: "group_loop bcs groups ?st = Inr (gs, m)"
    by (simp add: Let_def)
  have inv: "\<forall>f g. snd ?st f = Some g \<longrightarrow> g \<in> set (fst ?st) \<and> f \<in> set (cg_funcs g)"
    using Cons.prems(2) by (auto simp: fold_upd_lookup split: if_splits)
  from Cons.IH [OF run inv] show ?case
    by (auto simp: fold_upd_dom)
qed

lemma field_edges_nodes:
  "(u, w) \<in> (field_edges bcs)\<^sup>* \<Longrightarrow> u \<in> field_nodes bcs \<Longrightarrow> w \<in> field_nodes bcs"
proof (induction rule: rtrancl_induct)
  case base
  then show ?case .
next
  case (step y z)
  from field_edge_condition [OF step.hyps(2)] show ?case
    by (auto simp: field_nodes_def)
qed

lemma Union_field_components: "\<Union> (field_components bcs) = field_nodes bcs"
proof
  show "\<Union> (field_components bcs) \<subseteq> field_nodes bcs"
    using field_edges_nodes by (fastforce simp: field_components_def)
  show "field_nodes bcs \<subseteq> \<Union> (field_components bcs)"
  proof
    fix v assume "v \<in> field_nodes bcs"
    then have "(field_edges bcs)\<^sup>* `` {v} \<in> field_components bcs"
      by (auto simp: field_components_def)
    moreover have "v \<in> (field_edges bcs)\<^sup>* `` {v}" by simp
    ultimately show "v \<in> \<Union> (field_components bcs)" by blast
  qed
qed

lemma group_bcs_f_map:
  assumes "group_bcs bcs = Inr (gs, m)"
  shows "dom m = field_nodes bcs \<and>
         (\<forall>f g. m f = Some g \<longrightarrow> g \<in> set gs \<and> f \<in> set (cg_funcs g))"
proof -
  from assms have run:
    "group_loop bcs (connected_components (build_graph bcs)) ([], Map.empty) = Inr (gs, m)"
    by (simp add: group_bcs_def)
  have "\<forall>f g. snd ([], Map.empty) f = Some g \<longrightarrow>
          g \<in> set (fst ([], Map.empty)) \<and> f \<in> set (cg_funcs g)"
    by simp
  from group_loop_f_map [OF run this]
  have d: "dom m = \<Union> (set ` set (connected_components (build_graph bcs)))"
    and l: "\<forall>f g. m f = Some g \<longrightarrow> g \<in> set gs \<and> f \<in> set (cg_funcs g)"
    by simp_all
  have "set ` set (connected_components (build_graph bcs)) = field_components bcs"
    using build_graph_components(1) [of bcs] by simp
  with d have "dom m = field_nodes bcs"
    by (simp add: Union_field_components)
  with l show ?thesis by blast
qed

section \<open>What the constructed object holds\<close>

text \<open>
  C1. The constructor on three equations over the fields \<open>f\<close>, \<open>h\<close>, \<open>k\<close>, \<open>p\<close>: it
  succeeds, the dictionary it prints is defined on all four fields, and the object it
  leaves holds the fields given, the equations and the conditions only. Reading
  \<open>groups\<close> or \<open>function_map\<close>, the attributes the class documents, raises
  \<open>AttributeError\<close>: the groups and the dictionary are computed and dropped.
\<close>

theorem BoundaryConditions_keeps_no_groups:
  "\<exists>f_map. BoundaryConditions_init ex_eqs None =
       Inr (\<lparr>bcs_funcs = None, bcs_eqs = [ex_eq1, ex_eq2, ex_eq3], bcs_bcs = ex_bcs\<rparr>, f_map) \<and>
     dom f_map = {ex_f, ex_h, ex_k, ex_p} \<and>
     getattr_BoundaryConditions
       \<lparr>bcs_funcs = None, bcs_eqs = [ex_eq1, ex_eq2, ex_eq3], bcs_bcs = ex_bcs\<rparr> ''groups'' =
       Inl AttributeError \<and>
     getattr_BoundaryConditions
       \<lparr>bcs_funcs = None, bcs_eqs = [ex_eq1, ex_eq2, ex_eq3], bcs_bcs = ex_bcs\<rparr> ''function_map'' =
       Inl AttributeError"
proof -
  from ex_group_bcs obtain gs m where g: "group_bcs ex_bcs = Inr (gs, m)"
    by (cases "group_bcs ex_bcs") auto
  from group_bcs_f_map [OF g] have "dom m = field_nodes ex_bcs" by simp
  also have "\<dots> = {ex_f, ex_h, ex_k, ex_p}"
    by (auto simp: field_nodes_def ex_bcs_def)
  finally have d: "dom m = {ex_f, ex_h, ex_k, ex_p}" .
  have "BoundaryConditions_init ex_eqs None =
       Inr (\<lparr>bcs_funcs = None, bcs_eqs = [ex_eq1, ex_eq2, ex_eq3], bcs_bcs = ex_bcs\<rparr>, m)"
    unfolding BoundaryConditions_init_def flatten_functions_def ex_flatten_equations
    by (simp only: option.case sum.case ex_setup_bcs g Let_def prod.case)
  moreover have "getattr_BoundaryConditions
       \<lparr>bcs_funcs = None, bcs_eqs = [ex_eq1, ex_eq2, ex_eq3], bcs_bcs = ex_bcs\<rparr> ''groups'' =
       Inl AttributeError"
    by (simp add: getattr_BoundaryConditions_def)
  moreover have "getattr_BoundaryConditions
       \<lparr>bcs_funcs = None, bcs_eqs = [ex_eq1, ex_eq2, ex_eq3], bcs_bcs = ex_bcs\<rparr> ''function_map'' =
       Inl AttributeError"
    by (simp add: getattr_BoundaryConditions_def)
  ultimately show ?thesis using d by blast
qed

end
